theory Spec2Isabelle
  imports Main "HOL-Library.Word" "HOL-Library.AList"
begin

section \<open>The XIndex facade (xindex\_impl.h)\<close>

text \<open>
  The facade \<open>XIndex<key_t, val_t, seq>\<close> owns one Root pointer and forwards every
  operation to it. The Root class, the epoch reclaimer (\<open>rcu_init\<close>, \<open>rcu_progress\<close>,
  \<open>rcu_barrier\<close>), \<open>memory_fence\<close>, the macro \<open>INVARIANT\<close> and the global \<open>config\<close>
  are declared in headers that are not part of the sources at hand. The facade is
  therefore modelled against an explicit environment: a record of the Root's member
  functions, the size of a Root object and the build flag \<open>NDEBUG\<close>. Of \<open>background\<close>
  the body of the coordinator's loop is modelled; the creation and joining of threads,
  \<open>start_bg\<close>, \<open>terminate_bg\<close> and the diagnostic \<open>byte_size\<close> play no part in the
  properties below and are left out.
\<close>

subsection \<open>Types\<close>

type_synonym size_t = "64 word"

text \<open>
  Modelled from the spec: the enumeration \<open>result_t\<close> is declared in xindex.h, which is
  missing. The facade names \<open>result_t::ok\<close> and \<open>result_t::retry\<close>; the third value is
  the spec's negative result of \<open>get\<close> and \<open>remove\<close>.
\<close>

datatype result_t = ok | not_found | retry

datatype error =
    InvariantFailed string
  | AssertionFailed string
  | NullPointer
  | OutOfBounds

text \<open>What the process does that other threads or the terminal can observe, in order.\<close>

datatype event =
    NewRoot nat
  | CreateNewRoot nat nat
  | StoreRoot nat
  | MemoryFence
  | RcuBarrier
  | TrimRoot nat
  | DeleteRoot nat
  | Leaking size_t

text \<open>
  Modelled from the spec: the global \<open>config\<close> (xindex\_util.h is missing). Its eight
  tunables are the ones the constructor checks; their C++ types are not visible, the
  seven numeric bounds are taken as integers and the worker count as a natural number.
\<close>

record config_t =
  root_error_bound :: int
  root_memory_constraint :: int
  group_error_bound :: int
  group_error_tolerance :: int
  buffer_size_bound :: int
  buffer_size_tolerance :: int
  buffer_compact_threshold :: int
  worker_n :: nat

text \<open>
  The environment the facade is compiled against. Every member function of the Root
  that may allocate or free takes the allocated-bytes counter and returns it, since the
  counter is a global that the Root's own code can reach.
  \<^item> \<open>r_init keys vals a\<close>: \<open>new root_t()\<close> followed by \<open>root->init(keys, vals)\<close>;
  \<^item> \<open>r_get r key val\<close>: \<open>root->get(key, val)\<close>, returning the result and \<open>val\<close>;
  \<^item> \<open>r_put r key val worker_id a\<close>, \<open>r_remove r key a\<close>;
  \<^item> \<open>r_scan r begin n result\<close>, \<open>r_range_scan r begin end result\<close>: the count
    returned and the vector \<open>result\<close> afterwards;
  \<^item> \<open>r_create_new_root r a\<close>: the object the returned pointer refers to;
  \<^item> \<open>r_trim_root r a\<close>;
  \<^item> \<open>r_force_adjustment_sync r should_update_array a\<close>: the flag afterwards first;
  \<^item> \<open>r_do_adjustment bg_i bg_n r a\<close>: one round of the worker thread \<open>bg_i\<close> of
    \<open>bg_n\<close>, returning its \<open>should_update_array\<close> first;
  \<^item> \<open>r_dtor r a\<close>: the counter after the destructor that \<open>delete\<close> runs.
\<close>

record ('k, 'v, 'r) env =
  NDEBUG :: bool
  sizeof_root_t :: size_t
  r_init :: "'k list \<Rightarrow> 'v list \<Rightarrow> size_t \<Rightarrow> 'r \<times> size_t"
  r_get :: "'r \<Rightarrow> 'k \<Rightarrow> 'v \<Rightarrow> result_t \<times> 'v"
  r_put :: "'r \<Rightarrow> 'k \<Rightarrow> 'v \<Rightarrow> nat \<Rightarrow> size_t \<Rightarrow> result_t \<times> 'r \<times> size_t"
  r_remove :: "'r \<Rightarrow> 'k \<Rightarrow> size_t \<Rightarrow> result_t \<times> 'r \<times> size_t"
  r_scan :: "'r \<Rightarrow> 'k \<Rightarrow> nat \<Rightarrow> ('k \<times> 'v) list \<Rightarrow> nat \<times> ('k \<times> 'v) list"
  r_range_scan :: "'r \<Rightarrow> 'k \<Rightarrow> 'k \<Rightarrow> ('k \<times> 'v) list \<Rightarrow> nat \<times> ('k \<times> 'v) list"
  r_create_new_root :: "'r \<Rightarrow> size_t \<Rightarrow> 'r \<times> size_t"
  r_trim_root :: "'r \<Rightarrow> size_t \<Rightarrow> 'r \<times> size_t"
  r_force_adjustment_sync :: "'r \<Rightarrow> bool \<Rightarrow> size_t \<Rightarrow> bool \<times> 'r \<times> size_t"
  r_do_adjustment :: "nat \<Rightarrow> nat \<Rightarrow> 'r \<Rightarrow> size_t \<Rightarrow> bool \<times> 'r \<times> size_t"
  r_dtor :: "'r \<Rightarrow> size_t \<Rightarrow> size_t"

text \<open>
  The state of the process as far as the facade touches it: the member \<open>root\<close> (a
  pointer, \<open>None\<close> for \<open>nullptr\<close>, otherwise the address and the object it points to,
  which the facade owns alone), the member \<open>bg_num\<close>, the globals \<open>config\<close>,
  \<open>_::allocated_bytes\<close> and the per-worker epoch counters, the next address \<open>new\<close>
  hands out, and the events so far.
\<close>

record 'r xindex =
  root :: "(nat \<times> 'r) option"
  bg_num :: nat
  config :: config_t
  allocated_bytes :: size_t
  rcu_status :: "nat list"
  next_addr :: nat
  events :: "event list"

subsection \<open>Epoch reclaimer and fences\<close>

text \<open>
  Modelled from the spec: xindex\_util.h is missing. \<open>rcu_init\<close> sets up one epoch
  counter per configured worker, \<open>rcu_progress\<close> advances the caller's counter (an
  identifier outside \<open>[0, worker_n)\<close> indexes outside the array), \<open>rcu_barrier\<close> and
  \<open>memory_fence\<close> change no data of the index and are recorded as events.
\<close>

definition rcu_init :: "'r xindex \<Rightarrow> 'r xindex" where
  "rcu_init s = s\<lparr>rcu_status := replicate (worker_n (config s)) 0\<rparr>"

definition rcu_progress :: "nat \<Rightarrow> 'r xindex \<Rightarrow> error + 'r xindex" where
  "rcu_progress worker_id s =
     (if worker_id < length (rcu_status s)
      then Inr (s\<lparr>rcu_status := (rcu_status s)[worker_id := Suc (rcu_status s ! worker_id)]\<rparr>)
      else Inl OutOfBounds)"

definition emit :: "event list \<Rightarrow> 'r xindex \<Rightarrow> 'r xindex" where
  "emit es s = s\<lparr>events := events s @ es\<rparr>"

definition memory_fence :: "'r xindex \<Rightarrow> 'r xindex" where
  "memory_fence s = emit [MemoryFence] s"

definition rcu_barrier :: "'r xindex \<Rightarrow> 'r xindex" where
  "rcu_barrier s = emit [RcuBarrier] s"

subsection \<open>Constructor and destructor\<close>

text \<open>
  The sanity checks of the constructor. The macro \<open>INVARIANT\<close> is missing
  (xindex\_util.h); following the spec, a violated check is fatal: it ends the process.
  The checks run in the order of the source and the first one that fails is reported.
\<close>

definition sanity_checks :: "config_t \<Rightarrow> error option" where
  "sanity_checks c =
     (if \<not> root_error_bound c > 0 then Some (InvariantFailed ''config.root_error_bound > 0'')
      else if \<not> root_memory_constraint c > 0
        then Some (InvariantFailed ''config.root_memory_constraint > 0'')
      else if \<not> group_error_bound c > 0 then Some (InvariantFailed ''config.group_error_bound > 0'')
      else if \<not> group_error_tolerance c > 0
        then Some (InvariantFailed ''config.group_error_tolerance > 0'')
      else if \<not> buffer_size_bound c > 0 then Some (InvariantFailed ''config.buffer_size_bound > 0'')
      else if \<not> buffer_size_tolerance c > 0
        then Some (InvariantFailed ''config.buffer_size_tolerance > 0'')
      else if \<not> buffer_compact_threshold c > 0
        then Some (InvariantFailed ''config.buffer_compact_threshold > 0'')
      else if \<not> worker_n c > 0 then Some (InvariantFailed ''config.worker_n > 0'')
      else None)"

text \<open>\<open>assert(cond)\<close>: compiled out under \<open>NDEBUG\<close>, otherwise it aborts when false.\<close>

definition assert_fails :: "('k, 'v, 'r) env \<Rightarrow> bool \<Rightarrow> bool" where
  "assert_fails env cond = (\<not> NDEBUG env \<and> \<not> cond)"

definition XIndex_ctor ::
  "('k::linorder, 'v, 'r) env \<Rightarrow> 'r xindex \<Rightarrow> 'k list \<Rightarrow> 'v list \<Rightarrow> nat \<Rightarrow> nat
     \<Rightarrow> error + 'r xindex" where
  "XIndex_ctor env s keys vals worker_num bg_n =
     (let s1 = s\<lparr>bg_num := bg_n, allocated_bytes := 0\<rparr>;
          s2 = s1\<lparr>config := (config s1)\<lparr>worker_n := worker_num\<rparr>\<rparr>
      in case sanity_checks (config s2) of
           Some e \<Rightarrow> Inl e
         | None \<Rightarrow>
             if assert_fails env (sorted keys)
             then Inl (AssertionFailed ''std::is_sorted(keys.begin(), keys.end())'')
             else
               let s3 = rcu_init s2;
                   p = next_addr s3;
                   a = allocated_bytes s3 + sizeof_root_t env;
                   (r, a') = r_init env keys vals a
               in Inr (emit [NewRoot p]
                        (s3\<lparr>root := Some (p, r), allocated_bytes := a', next_addr := Suc p\<rparr>)))"

text \<open>
  The three lines that retire a Root, the same in the destructor, the background round
  and the synchronous adjustment: the assertion, the decrement by
  \<open>sizeof(decltype(*root))\<close>, and \<open>delete\<close>, which runs the Root's destructor.
\<close>

definition delete_root ::
  "('k, 'v, 'r) env \<Rightarrow> nat \<times> 'r \<Rightarrow> 'r xindex \<Rightarrow> error + 'r xindex" where
  "delete_root env old_root s =
     (let bytes_to_delete = sizeof_root_t env
      in if assert_fails env (allocated_bytes s > bytes_to_delete)
         then Inl (AssertionFailed ''_::allocated_bytes > bytes_to_delete'')
         else
           let s1 = s\<lparr>allocated_bytes := allocated_bytes s - bytes_to_delete\<rparr>;
               s2 = s1\<lparr>allocated_bytes := r_dtor env (snd old_root) (allocated_bytes s1)\<rparr>
           in Inr (emit [DeleteRoot (fst old_root)] s2))"

definition leak_report :: "'r xindex \<Rightarrow> 'r xindex" where
  "leak_report s =
     (if allocated_bytes s > 0 then emit [Leaking (allocated_bytes s)] s else s)"

definition XIndex_dtor :: "('k, 'v, 'r) env \<Rightarrow> 'r xindex \<Rightarrow> error + 'r xindex" where
  "XIndex_dtor env s =
     (case root s of
        Some old_root \<Rightarrow>
          (case delete_root env old_root s of
             Inl e \<Rightarrow> Inl e
           | Inr s1 \<Rightarrow> Inr (leak_report (s1\<lparr>root := None\<rparr>)))
      | None \<Rightarrow> Inr (leak_report s))"

subsection \<open>Foreground operations\<close>

definition get ::
  "('k, 'v, 'r) env \<Rightarrow> 'r xindex \<Rightarrow> 'k \<Rightarrow> 'v \<Rightarrow> nat \<Rightarrow> error + ((bool \<times> 'v) \<times> 'r xindex)" where
  "get env s key val worker_id =
     (case rcu_progress worker_id s of
        Inl e \<Rightarrow> Inl e
      | Inr s1 \<Rightarrow>
          (case root s1 of
             None \<Rightarrow> Inl NullPointer
           | Some (p, r) \<Rightarrow>
               (let (res, val') = r_get env r key val in Inr ((res = ok, val'), s1))))"

text \<open>
  One call \<open>root->put(key, val, worker_id)\<close> through the member \<open>root\<close> as it is at
  that moment.
\<close>

definition put_attempt ::
  "('k, 'v, 'r) env \<Rightarrow> 'k \<Rightarrow> 'v \<Rightarrow> nat \<Rightarrow> 'r xindex \<Rightarrow> error + (result_t \<times> 'r xindex)" where
  "put_attempt env key val worker_id s =
     (case root s of
        None \<Rightarrow> Inl NullPointer
      | Some (p, r) \<Rightarrow>
          (let (res, r', a') = r_put env r key val worker_id (allocated_bytes s)
           in Inr (res, s\<lparr>root := Some (p, r'), allocated_bytes := a'\<rparr>)))"

text \<open>
  The loop \<open>while ((res = root->put(...)) == result_t::retry) rcu_progress(worker_id);\<close>
  has no counter and no exit but a result other than \<open>retry\<close>; \<open>None\<close> is the run
  that never leaves it.
\<close>

partial_function (option) put_loop ::
  "('k, 'v, 'r) env \<Rightarrow> 'k \<Rightarrow> 'v \<Rightarrow> nat \<Rightarrow> 'r xindex
     \<Rightarrow> (error + (result_t \<times> 'r xindex)) option" where
  "put_loop env key val worker_id s =
     (case put_attempt env key val worker_id s of
        Inl e \<Rightarrow> Some (Inl e)
      | Inr (res, s') \<Rightarrow>
          if res = retry
          then (case rcu_progress worker_id s' of
                  Inl e \<Rightarrow> Some (Inl e)
                | Inr s'' \<Rightarrow> put_loop env key val worker_id s'')
          else Some (Inr (res, s')))"

definition put ::
  "('k, 'v, 'r) env \<Rightarrow> 'r xindex \<Rightarrow> 'k \<Rightarrow> 'v \<Rightarrow> nat \<Rightarrow> (error + (bool \<times> 'r xindex)) option" where
  "put env s key val worker_id =
     (case rcu_progress worker_id s of
        Inl e \<Rightarrow> Some (Inl e)
      | Inr s1 \<Rightarrow>
          (case put_loop env key val worker_id s1 of
             None \<Rightarrow> None
           | Some (Inl e) \<Rightarrow> Some (Inl e)
           | Some (Inr (res, s2)) \<Rightarrow> Some (Inr (res = ok, s2))))"

definition remove_key ::
  "('k, 'v, 'r) env \<Rightarrow> 'r xindex \<Rightarrow> 'k \<Rightarrow> nat \<Rightarrow> error + (bool \<times> 'r xindex)" where
  "remove_key env s key worker_id =
     (case rcu_progress worker_id s of
        Inl e \<Rightarrow> Inl e
      | Inr s1 \<Rightarrow>
          (case root s1 of
             None \<Rightarrow> Inl NullPointer
           | Some (p, r) \<Rightarrow>
               (let (res, r', a') = r_remove env r key (allocated_bytes s1)
                in Inr (res = ok, s1\<lparr>root := Some (p, r'), allocated_bytes := a'\<rparr>))))"

definition scan ::
  "('k, 'v, 'r) env \<Rightarrow> 'r xindex \<Rightarrow> 'k \<Rightarrow> nat \<Rightarrow> ('k \<times> 'v) list \<Rightarrow> nat
     \<Rightarrow> error + ((nat \<times> ('k \<times> 'v) list) \<times> 'r xindex)" where
  "scan env s begin n result worker_id =
     (case rcu_progress worker_id s of
        Inl e \<Rightarrow> Inl e
      | Inr s1 \<Rightarrow>
          (case root s1 of
             None \<Rightarrow> Inl NullPointer
           | Some (p, r) \<Rightarrow> Inr (r_scan env r begin n result, s1)))"

definition range_scan ::
  "('k, 'v, 'r) env \<Rightarrow> 'r xindex \<Rightarrow> 'k \<Rightarrow> 'k \<Rightarrow> ('k \<times> 'v) list \<Rightarrow> nat
     \<Rightarrow> error + ((nat \<times> ('k \<times> 'v) list) \<times> 'r xindex)" where
  "range_scan env s begin end result worker_id =
     (case rcu_progress worker_id s of
        Inl e \<Rightarrow> Inl e
      | Inr s1 \<Rightarrow>
          (case root s1 of
             None \<Rightarrow> Inl NullPointer
           | Some (p, r) \<Rightarrow> Inr (r_range_scan env r begin end result, s1)))"

subsection \<open>Structure adjustment\<close>

text \<open>\<open>index.root = old_root->create_new_root();\<close> The new object gets a fresh address.\<close>

definition create_new_root_step ::
  "('k, 'v, 'r) env \<Rightarrow> nat \<times> 'r \<Rightarrow> 'r xindex \<Rightarrow> 'r xindex" where
  "create_new_root_step env old_root s =
     (let (new_r, a') = r_create_new_root env (snd old_root) (allocated_bytes s);
          new_p = next_addr s
      in emit [CreateNewRoot (fst old_root) new_p, StoreRoot new_p]
           (s\<lparr>root := Some (new_p, new_r), allocated_bytes := a', next_addr := Suc new_p\<rparr>))"

text \<open>\<open>index.root->trim_root();\<close>\<close>

definition trim_root_step :: "('k, 'v, 'r) env \<Rightarrow> 'r xindex \<Rightarrow> error + 'r xindex" where
  "trim_root_step env s =
     (case root s of
        None \<Rightarrow> Inl NullPointer
      | Some (p, r) \<Rightarrow>
          (let (r', a') = r_trim_root env r (allocated_bytes s)
           in Inr (emit [TrimRoot p] (s\<lparr>root := Some (p, r'), allocated_bytes := a'\<rparr>))))"

text \<open>
  \<open>force_adjustment_sync\<close>. The statistics computed after \<open>delete old_root\<close> only feed
  \<open>DEBUG_THIS\<close> and are left out.
\<close>

definition force_adjustment_sync :: "('k, 'v, 'r) env \<Rightarrow> 'r xindex \<Rightarrow> error + 'r xindex" where
  "force_adjustment_sync env s =
     (case root s of
        None \<Rightarrow> Inr s
      | Some (p, r) \<Rightarrow>
          (let (should_update_array, r1, a1) =
                 r_force_adjustment_sync env r False (allocated_bytes s);
               s1 = s\<lparr>root := Some (p, r1), allocated_bytes := a1\<rparr>
           in if should_update_array
              then
                (let old_root = (p, r1);
                     s2 = create_new_root_step env old_root s1
                 in case trim_root_step env s2 of
                      Inl e \<Rightarrow> Inl e
                    | Inr s3 \<Rightarrow> delete_root env old_root s3)
              else Inr s1))"

text \<open>The record \<open>bg_info_t\<close> without \<open>root_ptr\<close>, which always is \<open>&index.root\<close>.\<close>

record bg_info_t =
  bg_i :: nat
  bg_n :: nat
  started :: bool
  finished :: bool
  running :: bool
  should_update_array :: bool

text \<open>The initialisation of \<open>info\<close> at the start of \<open>background\<close>.\<close>

definition init_info :: "nat \<Rightarrow> bg_info_t list" where
  "init_info n =
     map (\<lambda>i. \<lparr>bg_i = i, bg_n = n, started = False, finished = False, running = True,
               should_update_array = False\<rparr>) [0..<n]"

text \<open>
  Modelled from the spec: the worker threads (\<open>root_t::do_adjustment\<close>) are missing. In
  a round each worker adjusts its own share of the Groups of the live Root and reports
  completion and whether a Group needs a structural change. The workers touch disjoint
  Groups, so the round is taken as the workers running one after the other.
\<close>

fun run_workers ::
  "('k, 'v, 'r) env \<Rightarrow> bg_info_t list \<Rightarrow> 'r \<Rightarrow> size_t \<Rightarrow> bg_info_t list \<times> 'r \<times> size_t" where
  "run_workers env [] r a = ([], r, a)"
| "run_workers env (i # info) r a =
     (let (f, r1, a1) = r_do_adjustment env (bg_i i) (bg_n i) r a;
          (info', r2, a2) = run_workers env info r1 a1
      in (i\<lparr>started := False, finished := True, should_update_array := f\<rparr> # info', r2, a2))"

text \<open>
  The loop after \<open>// now worker has finished\<close>: it folds the workers' flags with \<open>||\<close>
  and clears \<open>finished\<close> and \<open>should_update_array\<close>.
\<close>

fun collect :: "bool \<Rightarrow> bg_info_t list \<Rightarrow> bool \<times> bg_info_t list" where
  "collect b [] = (b, [])"
| "collect b (i # info) =
     (let b' = (b \<or> should_update_array i);
          (b'', info') = collect b' info
      in (b'', i\<lparr>finished := False, should_update_array := False\<rparr> # info'))"

text \<open>The body of \<open>if (should_update_array)\<close> in \<open>background\<close>.\<close>

definition background_update :: "('k, 'v, 'r) env \<Rightarrow> 'r xindex \<Rightarrow> error + 'r xindex" where
  "background_update env s =
     (case root s of
        None \<Rightarrow> Inl NullPointer
      | Some old_root \<Rightarrow>
          (let s1 = create_new_root_step env old_root s;
               s2 = memory_fence s1;
               s3 = rcu_barrier s2
           in case trim_root_step env s3 of
                Inl e \<Rightarrow> Inl e
              | Inr s4 \<Rightarrow> delete_root env old_root s4))"

text \<open>
  One pass through the body of \<open>while (index.bg_running)\<close>: the workers are started,
  the coordinator waits until all have finished, collects their flags, replaces the
  Root if one of them asked for it, and ends the round with a fence and a barrier.
\<close>

definition background_round ::
  "('k, 'v, 'r) env \<Rightarrow> 'r xindex \<Rightarrow> bg_info_t list \<Rightarrow> error + ('r xindex \<times> bg_info_t list)" where
  "background_round env s info =
     (case root s of
        None \<Rightarrow> Inl NullPointer
      | Some (p, r) \<Rightarrow>
          (let info1 = map (\<lambda>i. i\<lparr>started := True\<rparr>) info;
               (info2, r1, a1) = run_workers env info1 r (allocated_bytes s);
               s1 = s\<lparr>root := Some (p, r1), allocated_bytes := a1\<rparr>;
               (should_update, info3) = collect False info2
           in case (if should_update then background_update env s1 else Inr s1) of
                Inl e \<Rightarrow> Inl e
              | Inr s2 \<Rightarrow> Inr (rcu_barrier (memory_fence s2), info3)))"

section \<open>The Root and its Groups, as the specification describes them\<close>

text \<open>
  Modelled from the spec: the classes Root, Group, Buffer and Model (xindex\_root\_impl.h,
  xindex\_group\_impl.h, xindex\_buffer\_impl.h, xindex\_model\_impl.h) are missing. The
  model keeps what the specification states about them. A learned Model only narrows
  the search for a position and is guaranteed to find it, so a lookup is a lookup in
  the sorted array; its error metric is fitting-dependent and left out.
\<close>

subsection \<open>Group\<close>

text \<open>
  Modelled from the spec: the state machine of a Group (xindex\_group.h is missing),
  \<open>stable \<rightarrow> compacting \<rightarrow> (stable | split_needed)\<close>.
\<close>

datatype group_state = stable | compacting | split_needed

text \<open>
  Modelled from the spec: a Group (xindex\_group.h is missing) owns a sorted array of
  pairs and a Buffer, a mapping from keys to pending entries in which \<open>None\<close> is a
  tombstone.
\<close>

record ('k, 'v) group_t =
  array :: "('k \<times> 'v) list"
  buffer :: "('k \<times> 'v option) list"
  gstate :: group_state

text \<open>Modelled from the spec: a Group as the Root creates it, stable and with an empty
  Buffer (the Group's constructor is missing).\<close>

definition mk_group :: "('k \<times> 'v) list \<Rightarrow> ('k, 'v) group_t" where
  "mk_group kvs = \<lparr>array = kvs, buffer = [], gstate = stable\<rparr>"

text \<open>
  Modelled from the spec: the lookup inside \<open>Group::get\<close> (missing). The Buffer's entry
  wins over the array's, and a tombstone hides the key.
\<close>

definition group_lookup :: "('k, 'v) group_t \<Rightarrow> 'k \<Rightarrow> 'v option" where
  "group_lookup g k =
     (case map_of (buffer g) k of Some e \<Rightarrow> e | None \<Rightarrow> map_of (array g) k)"

text \<open>Modelled from the spec: \<open>Group::get\<close> (missing); \<open>val\<close> is written only when the
  key is found.\<close>

definition group_get :: "('k, 'v) group_t \<Rightarrow> 'k \<Rightarrow> 'v \<Rightarrow> result_t \<times> 'v" where
  "group_get g k val =
     (case group_lookup g k of Some v \<Rightarrow> (ok, v) | None \<Rightarrow> (not_found, val))"

text \<open>
  Modelled from the spec: \<open>Group::put\<close> (missing). Entries go to the Buffer; a
  structural change in progress is answered with \<open>retry\<close>.
\<close>

definition group_put :: "('k, 'v) group_t \<Rightarrow> 'k \<Rightarrow> 'v \<Rightarrow> result_t \<times> ('k, 'v) group_t" where
  "group_put g k v =
     (if gstate g = compacting then (retry, g)
      else (ok, g\<lparr>buffer := AList.update k (Some v) (buffer g)\<rparr>))"

text \<open>Modelled from the spec: \<open>Group::remove\<close> (missing), a tombstone in the Buffer for
  a key that is there.\<close>

definition group_remove :: "('k, 'v) group_t \<Rightarrow> 'k \<Rightarrow> result_t \<times> ('k, 'v) group_t" where
  "group_remove g k =
     (case group_lookup g k of
        None \<Rightarrow> (not_found, g)
      | Some v \<Rightarrow> (ok, g\<lparr>buffer := AList.update k None (buffer g)\<rparr>))"

text \<open>
  Modelled from the spec: the merge-walk of \<open>Group::scan\<close> and \<open>Group::range_scan\<close>
  (missing) over array and Buffer in ascending key order, honouring tombstones.
\<close>

definition group_entries :: "('k::linorder, 'v) group_t \<Rightarrow> ('k \<times> 'v) list" where
  "group_entries g =
     sort_key fst
       (filter (\<lambda>kv. map_of (buffer g) (fst kv) = None) (array g) @
        List.map_filter (\<lambda>(k, e). map_option (Pair k) e) (buffer g))"

text \<open>
  Modelled from the spec: the adjustment evaluation of a Group (missing). The Buffer is
  compacted into the array, and a Group whose array has grown beyond the size threshold
  becomes a split candidate.
\<close>

definition group_adjust :: "nat \<Rightarrow> ('k::linorder, 'v) group_t \<Rightarrow> ('k, 'v) group_t" where
  "group_adjust max_size g =
     (let a = group_entries g
      in \<lparr>array = a, buffer = [],
          gstate = (if length a > max_size then split_needed else stable)\<rparr>)"

text \<open>
  Modelled from the spec: the first transition of the state machine of a Group
  (missing), \<open>stable \<rightarrow> compacting\<close>, which a background worker takes when it starts
  to compact the Buffer; \<open>group_adjust\<close> is the compaction run to its end, where the
  Group is \<open>stable\<close> or \<open>split_needed\<close> again.
\<close>

definition group_begin_compaction :: "('k, 'v) group_t \<Rightarrow> ('k, 'v) group_t" where
  "group_begin_compaction g = g\<lparr>gstate := compacting\<rparr>"

subsection \<open>Root\<close>

text \<open>
  Modelled from the spec: the ordered Groups of a Root (xindex\_root.h is missing). The
  first takes every key below the first pivot, each other Group starts at its pivot.
\<close>

record ('k, 'v) root_t =
  head_group :: "('k, 'v) group_t"
  tail_groups :: "('k \<times> ('k, 'v) group_t) list"

text \<open>Modelled from the spec: the routing of the Root (missing) for a query, to the
  Group whose range holds the key.\<close>

fun find_group :: "'k::linorder \<Rightarrow> 'g \<Rightarrow> ('k \<times> 'g) list \<Rightarrow> 'g" where
  "find_group k g [] = g"
| "find_group k g ((p, g1) # rest) = (if k < p then g else find_group k g1 rest)"

text \<open>Modelled from the spec: the routing of the Root (missing) for an update; the
  operation runs on the Group whose range holds the key.\<close>

fun on_group ::
  "('g \<Rightarrow> 'a \<times> 'g) \<Rightarrow> 'k::linorder \<Rightarrow> 'g \<Rightarrow> ('k \<times> 'g) list \<Rightarrow> 'a \<times> 'g \<times> ('k \<times> 'g) list" where
  "on_group f k g [] = (let (x, g') = f g in (x, g', []))"
| "on_group f k g ((p, g1) # rest) =
     (if k < p then (let (x, g') = f g in (x, g', (p, g1) # rest))
      else (let (x, g1', rest') = on_group f k g1 rest in (x, g, (p, g1') # rest')))"

text \<open>Modelled from the spec: the routing of the Root (missing) for a scan, to the
  Group that holds \<open>k\<close> and the Groups after it.\<close>

fun groups_from :: "'k::linorder \<Rightarrow> 'g \<Rightarrow> ('k \<times> 'g) list \<Rightarrow> 'g list" where
  "groups_from k g [] = [g]"
| "groups_from k g ((p, g1) # rest) =
     (if k < p then g # map snd ((p, g1) # rest) else groups_from k g1 rest)"

text \<open>Modelled from the spec: the partition of the sorted input by \<open>Root::init\<close>
  (missing) into runs of \<open>n\<close> pairs, one run for all when \<open>n\<close> is 0.\<close>

function chunks :: "nat \<Rightarrow> 'a list \<Rightarrow> 'a list list" where
  "chunks n xs =
     (if n = 0 \<or> length xs \<le> n then [xs] else take n xs # chunks n (drop n xs))"
  by pat_completeness auto
termination
  by (relation "measure (\<lambda>(n, xs). length xs)") auto

text \<open>Modelled from the spec: a Group of \<open>Root::init\<close> (missing) with its first key as
  the pivot.\<close>

definition pivot_group :: "('k \<times> 'v) list \<Rightarrow> ('k \<times> ('k, 'v) group_t) option" where
  "pivot_group c = (case c of [] \<Rightarrow> None | (k, v) # rest \<Rightarrow> Some (k, mk_group c))"

text \<open>
  Modelled from the spec: \<open>Root::init\<close> (missing). The sorted input is cut into the
  initial Groups. How many keys a Group takes depends on the Model fitting; the model
  takes it as the parameter \<open>group_size\<close> (0 for a single Group).
\<close>

definition root_init :: "nat \<Rightarrow> 'k list \<Rightarrow> 'v list \<Rightarrow> ('k, 'v) root_t" where
  "root_init group_size keys vals =
     (case chunks group_size (zip keys vals) of
        [] \<Rightarrow> \<lparr>head_group = mk_group [], tail_groups = []\<rparr>
      | c # cs \<Rightarrow> \<lparr>head_group = mk_group c, tail_groups = List.map_filter pivot_group cs\<rparr>)"

text \<open>Modelled from the spec: \<open>Root::get\<close> (missing), delegated to the Group of the key.\<close>

definition root_get :: "('k::linorder, 'v) root_t \<Rightarrow> 'k \<Rightarrow> 'v \<Rightarrow> result_t \<times> 'v" where
  "root_get r k val = group_get (find_group k (head_group r) (tail_groups r)) k val"

text \<open>Modelled from the spec: \<open>Root::put\<close> (missing), delegated to the Group of the key.\<close>

definition root_put ::
  "('k::linorder, 'v) root_t \<Rightarrow> 'k \<Rightarrow> 'v \<Rightarrow> nat \<Rightarrow> result_t \<times> ('k, 'v) root_t" where
  "root_put r k v worker_id =
     (let (res, g, gs) = on_group (\<lambda>g. group_put g k v) k (head_group r) (tail_groups r)
      in (res, \<lparr>head_group = g, tail_groups = gs\<rparr>))"

text \<open>Modelled from the spec: \<open>Root::remove\<close> (missing), delegated to the Group of the
  key.\<close>

definition root_remove :: "('k::linorder, 'v) root_t \<Rightarrow> 'k \<Rightarrow> result_t \<times> ('k, 'v) root_t" where
  "root_remove r k =
     (let (res, g, gs) = on_group (\<lambda>g. group_remove g k) k (head_group r) (tail_groups r)
      in (res, \<lparr>head_group = g, tail_groups = gs\<rparr>))"

text \<open>Modelled from the spec: the pairs with a key of at least \<open>k\<close> that the scans of
  the Root (missing) walk over, in order.\<close>

definition entries_from :: "('k::linorder, 'v) root_t \<Rightarrow> 'k \<Rightarrow> ('k \<times> 'v) list" where
  "entries_from r k =
     filter (\<lambda>kv. k \<le> fst kv)
       (concat (map group_entries (groups_from k (head_group r) (tail_groups r))))"

text \<open>Modelled from the spec: \<open>Root::scan\<close> (missing). The pairs found, \<open>n\<close> at most, are
  appended to the caller's vector and counted.\<close>

definition root_scan ::
  "('k::linorder, 'v) root_t \<Rightarrow> 'k \<Rightarrow> nat \<Rightarrow> ('k \<times> 'v) list \<Rightarrow> nat \<times> ('k \<times> 'v) list" where
  "root_scan r k n result =
     (let found = take n (entries_from r k) in (length found, result @ found))"

text \<open>Modelled from the spec: \<open>Root::range_scan\<close> (missing). The walk stops at the end
  key; the pairs found are appended to the caller's vector and counted.\<close>

definition root_range_scan ::
  "('k::linorder, 'v) root_t \<Rightarrow> 'k \<Rightarrow> 'k \<Rightarrow> ('k \<times> 'v) list \<Rightarrow> nat \<times> ('k \<times> 'v) list" where
  "root_range_scan r k e result =
     (let found = takeWhile (\<lambda>kv. fst kv < e) (entries_from r k)
      in (length found, result @ found))"

text \<open>Modelled from the spec: all Groups of a Root (missing) in order, each with its
  pivot (none for the first).\<close>

definition all_groups :: "('k, 'v) root_t \<Rightarrow> ('k option \<times> ('k, 'v) group_t) list" where
  "all_groups r = (None, head_group r) # map (\<lambda>(p, g). (Some p, g)) (tail_groups r)"

text \<open>
  Modelled from the spec: \<open>Root::force_adjustment_sync\<close> (missing). It adjusts every
  Group in order and raises the flag if one of them is a split candidate.
\<close>

definition root_force_adjustment_sync ::
  "nat \<Rightarrow> ('k::linorder, 'v) root_t \<Rightarrow> bool \<Rightarrow> bool \<times> ('k, 'v) root_t" where
  "root_force_adjustment_sync max_size r flag =
     (let r' = \<lparr>head_group = group_adjust max_size (head_group r),
                tail_groups = map (\<lambda>(p, g). (p, group_adjust max_size g)) (tail_groups r)\<rparr>
      in (flag \<or> (\<exists>pg \<in> set (all_groups r'). gstate (snd pg) = split_needed), r'))"

text \<open>
  Modelled from the spec: the share of a background worker (\<open>Root::do_adjustment\<close> is
  missing). The workers take disjoint shares of the Groups; worker \<open>i\<close> of \<open>n\<close> is
  given the Groups whose position is \<open>i\<close> modulo \<open>n\<close>.
\<close>

fun adjust_share ::
  "nat \<Rightarrow> nat \<Rightarrow> nat \<Rightarrow> nat \<Rightarrow> ('k::linorder, 'v) group_t list \<Rightarrow> bool \<times> ('k, 'v) group_t list" where
  "adjust_share max_size i n pos [] = (False, [])"
| "adjust_share max_size i n pos (g # gs) =
     (let (f, gs') = adjust_share max_size i n (Suc pos) gs
      in if pos mod n = i
         then (let g' = group_adjust max_size g in (gstate g' = split_needed \<or> f, g' # gs'))
         else (f, g # gs'))"

text \<open>Modelled from the spec: one round of \<open>Root::do_adjustment\<close> (missing) for worker
  \<open>i\<close> of \<open>n\<close>, with its report.\<close>

definition root_do_adjustment ::
  "nat \<Rightarrow> nat \<Rightarrow> nat \<Rightarrow> ('k::linorder, 'v) root_t \<Rightarrow> bool \<times> ('k, 'v) root_t" where
  "root_do_adjustment max_size i n r =
     (case adjust_share max_size i n 0 (head_group r # map snd (tail_groups r)) of
        (f, g # gs) \<Rightarrow> (f, \<lparr>head_group = g, tail_groups = zip (map fst (tail_groups r)) gs\<rparr>)
      | (f, []) \<Rightarrow> (f, r))"

text \<open>
  Modelled from the spec: the split inside \<open>Root::create_new_root\<close> (missing). A split
  candidate is replaced by two stable Groups, each with half of its array; the second
  starts at its own first key.
\<close>

definition split_group ::
  "'k option \<times> ('k, 'v) group_t \<Rightarrow> ('k option \<times> ('k, 'v) group_t) list" where
  "split_group pg =
     (let g = snd pg; m = length (array g) div 2
      in if gstate g = split_needed
         then (case drop m (array g) of
                 [] \<Rightarrow> [(fst pg, g\<lparr>gstate := stable\<rparr>)]
               | (k, v) # rest \<Rightarrow>
                   [(fst pg, g\<lparr>array := take m (array g), gstate := stable\<rparr>),
                    (Some k, g\<lparr>array := (k, v) # rest, gstate := stable\<rparr>)])
         else [pg])"

text \<open>Modelled from the spec: the Groups of the new Root (missing) after the first, with
  their pivots.\<close>

definition tail_of :: "('k option \<times> 'g) list \<Rightarrow> ('k \<times> 'g) list" where
  "tail_of pgs = List.map_filter (\<lambda>(p, g). map_option (\<lambda>k. (k, g)) p) pgs"

text \<open>Modelled from the spec: \<open>Root::create_new_root\<close> (missing) builds a new Root from
  the Groups in range order and leaves the old Root as it is.\<close>

definition root_create_new_root :: "('k, 'v) root_t \<Rightarrow> ('k, 'v) root_t" where
  "root_create_new_root r =
     (case concat (map split_group (all_groups r)) of
        [] \<Rightarrow> r
      | (p, g) # pgs \<Rightarrow> \<lparr>head_group = g, tail_groups = tail_of pgs\<rparr>)"

text \<open>Modelled from the spec: \<open>Root::trim_root\<close> (missing) releases staging structures
  only; what the Root holds stays.\<close>

definition root_trim_root :: "('k, 'v) root_t \<Rightarrow> ('k, 'v) root_t" where
  "root_trim_root r = r"

text \<open>
  Modelled from the spec: the bytes a Root accounts for beside itself (the Root's
  allocations and destructor are missing). Every allocation and deallocation path
  keeps the accountant consistent: the Root adds the bytes of its table of Groups, one
  slot per Group, when it is built, and its destructor subtracts them again.
\<close>

definition table_bytes :: "size_t \<Rightarrow> ('k, 'v) root_t \<Rightarrow> size_t" where
  "table_bytes sizeof_slot r = of_nat (Suc (length (tail_groups r))) * sizeof_slot"

text \<open>
  Modelled from the spec: the environment made of this Root. Its parameters are the
  build flag, the sizes of a Root object and of a slot of its table, the initial Group
  size and the size threshold for a split.
\<close>

definition spec_env ::
  "bool \<Rightarrow> size_t \<Rightarrow> size_t \<Rightarrow> nat \<Rightarrow> nat \<Rightarrow> ('k::linorder, 'v, ('k, 'v) root_t) env" where
  "spec_env ndbg sz_root sz_slot group_size max_size =
     \<lparr>NDEBUG = ndbg,
      sizeof_root_t = sz_root,
      r_init = (\<lambda>keys vals a.
                 let r = root_init group_size keys vals in (r, a + table_bytes sz_slot r)),
      r_get = root_get,
      r_put = (\<lambda>r k v w a. let (res, r') = root_put r k v w in (res, r', a)),
      r_remove = (\<lambda>r k a. let (res, r') = root_remove r k in (res, r', a)),
      r_scan = root_scan,
      r_range_scan = root_range_scan,
      r_create_new_root = (\<lambda>r a.
                 let r' = root_create_new_root r in (r', a + sz_root + table_bytes sz_slot r')),
      r_trim_root = (\<lambda>r a. (root_trim_root r, a)),
      r_force_adjustment_sync = (\<lambda>r b a.
                 let (b', r') = root_force_adjustment_sync max_size r b in (b', r', a)),
      r_do_adjustment = (\<lambda>i n r a.
                 let (f, r') = root_do_adjustment max_size i n r in (f, r', a)),
      r_dtor = (\<lambda>r a. a - table_bytes sz_slot r)\<rparr>"

subsection \<open>A background worker beside the foreground threads\<close>

text \<open>
  Modelled from the spec: the background workers run concurrently with the foreground
  traffic (the thread body \<open>Root::do_adjustment\<close> is missing). What a worker does to
  the live Root while foreground threads call into it is taken one step at a time: it
  starts the compaction of the Group at a position (0 is the first Group), it ends the
  compaction of a Group, or it leaves the Groups alone.
\<close>

datatype worker_step = Begin_compaction nat | Finish_compaction nat | Pause

text \<open>Modelled from the spec: a change to the Group at a position of the Root
  (missing); a position behind the last Group changes nothing.\<close>

definition map_group_at ::
  "nat \<Rightarrow> (('k, 'v) group_t \<Rightarrow> ('k, 'v) group_t) \<Rightarrow> ('k, 'v) root_t \<Rightarrow> ('k, 'v) root_t" where
  "map_group_at i f r =
     (case i of
        0 \<Rightarrow> r\<lparr>head_group := f (head_group r)\<rparr>
      | Suc j \<Rightarrow>
          if j < length (tail_groups r)
          then r\<lparr>tail_groups := (tail_groups r)[j := apsnd f (tail_groups r ! j)]\<rparr>
          else r)"

text \<open>Modelled from the spec: one step of a background worker on the live Root
  (missing), with the size threshold for a split.\<close>

definition worker_step_on ::
  "nat \<Rightarrow> worker_step \<Rightarrow> ('k::linorder, 'v) root_t \<Rightarrow> ('k, 'v) root_t" where
  "worker_step_on max_size st r =
     (case st of
        Begin_compaction i \<Rightarrow> map_group_at i group_begin_compaction r
      | Finish_compaction i \<Rightarrow> map_group_at i (group_adjust max_size) r
      | Pause \<Rightarrow> r)"

text \<open>
  Modelled from the spec: a Root (missing) that a background worker works on while the
  foreground threads use it, the Root together with the steps the worker still has
  ahead of it.
\<close>

type_synonym ('k, 'v) shared_root_t = "('k, 'v) root_t \<times> worker_step list"

text \<open>
  Modelled from the spec: \<open>Root::put\<close> (missing) on a Root shared with a background
  worker. The worker's steps are interleaved with the calls of \<open>put\<close>, the one
  operation whose answer depends on a structural change in progress: the worker takes
  its next step, then the call is served.
\<close>

definition shared_put ::
  "nat \<Rightarrow> ('k::linorder, 'v) shared_root_t \<Rightarrow> 'k \<Rightarrow> 'v \<Rightarrow> nat
     \<Rightarrow> result_t \<times> ('k, 'v) shared_root_t" where
  "shared_put max_size sr k v worker_id =
     (case snd sr of
        [] \<Rightarrow> (let (res, r') = root_put (fst sr) k v worker_id in (res, (r', [])))
      | st # sts \<Rightarrow>
          (let (res, r') = root_put (worker_step_on max_size st (fst sr)) k v worker_id
           in (res, (r', sts))))"

text \<open>
  Modelled from the spec: the environment made of this Root while a background worker
  is running. Beside the parameters of \<open>spec_env\<close> it takes the steps that the worker
  is going to take after the Root is built.
\<close>

definition shared_env ::
  "bool \<Rightarrow> size_t \<Rightarrow> size_t \<Rightarrow> nat \<Rightarrow> nat \<Rightarrow> worker_step list
     \<Rightarrow> ('k::linorder, 'v, ('k, 'v) shared_root_t) env" where
  "shared_env ndbg sz_root sz_slot group_size max_size steps =
     \<lparr>NDEBUG = ndbg,
      sizeof_root_t = sz_root,
      r_init = (\<lambda>keys vals a.
                 let r = root_init group_size keys vals in ((r, steps), a + table_bytes sz_slot r)),
      r_get = (\<lambda>sr. root_get (fst sr)),
      r_put = (\<lambda>sr k v w a. let (res, sr') = shared_put max_size sr k v w in (res, sr', a)),
      r_remove = (\<lambda>sr k a. let (res, r') = root_remove (fst sr) k in (res, (r', snd sr), a)),
      r_scan = (\<lambda>sr. root_scan (fst sr)),
      r_range_scan = (\<lambda>sr. root_range_scan (fst sr)),
      r_create_new_root = (\<lambda>sr a.
                 let r' = root_create_new_root (fst sr)
                 in ((r', snd sr), a + sz_root + table_bytes sz_slot r')),
      r_trim_root = (\<lambda>sr a. ((root_trim_root (fst sr), snd sr), a)),
      r_force_adjustment_sync = (\<lambda>sr b a.
                 let (b', r') = root_force_adjustment_sync max_size (fst sr) b
                 in (b', (r', snd sr), a)),
      r_do_adjustment = (\<lambda>i n sr a.
                 let (f, r') = root_do_adjustment max_size i n (fst sr) in (f, (r', snd sr), a)),
      r_dtor = (\<lambda>sr a. a - table_bytes sz_slot (fst sr))\<rparr>"

text \<open>The process before any index exists, with the tunables at the given values.\<close>

definition fresh :: "config_t \<Rightarrow> size_t \<Rightarrow> 'r xindex" where
  "fresh c a =
     \<lparr>root = None, bg_num = 0, config = c, allocated_bytes = a, rcu_status = [],
      next_addr = 0, events = []\<rparr>"

section \<open>Reference definitions and running examples\<close>

text \<open>
  The bounded spin of the specification: the loop of \<open>put\<close> cut after \<open>n\<close> calls of
  \<open>root->put\<close>, with \<open>None\<close> when the bound is reached before a result.
\<close>

fun put_loop_upto ::
  "nat \<Rightarrow> ('k, 'v, 'r) env \<Rightarrow> 'k \<Rightarrow> 'v \<Rightarrow> nat \<Rightarrow> 'r xindex
     \<Rightarrow> (error + (result_t \<times> 'r xindex)) option" where
  "put_loop_upto 0 env key val worker_id s = None"
| "put_loop_upto (Suc n) env key val worker_id s =
     (case put_attempt env key val worker_id s of
        Inl e \<Rightarrow> Some (Inl e)
      | Inr (res, s') \<Rightarrow>
          if res = retry
          then (case rcu_progress worker_id s' of
                  Inl e \<Rightarrow> Some (Inl e)
                | Inr s'' \<Rightarrow> put_loop_upto n env key val worker_id s'')
          else Some (Inr (res, s')))"

definition put_upto ::
  "nat \<Rightarrow> ('k, 'v, 'r) env \<Rightarrow> 'r xindex \<Rightarrow> 'k \<Rightarrow> 'v \<Rightarrow> nat
     \<Rightarrow> (error + (bool \<times> 'r xindex)) option" where
  "put_upto n env s key val worker_id =
     (case rcu_progress worker_id s of
        Inl e \<Rightarrow> Some (Inl e)
      | Inr s1 \<Rightarrow>
          (case put_loop_upto n env key val worker_id s1 of
             None \<Rightarrow> None
           | Some (Inl e) \<Rightarrow> Some (Inl e)
           | Some (Inr (res, s2)) \<Rightarrow> Some (Inr (res = ok, s2))))"

text \<open>
  The state in which the loop of \<open>put\<close> makes its next call of \<open>root->put\<close> after
  \<open>n\<close> calls that were all answered \<open>retry\<close>, each followed by \<open>rcu_progress\<close>;
  \<open>None\<close> when one of the \<open>n\<close> calls was answered otherwise or the process was
  ended.
\<close>

fun after_retries ::
  "nat \<Rightarrow> ('k, 'v, 'r) env \<Rightarrow> 'k \<Rightarrow> 'v \<Rightarrow> nat \<Rightarrow> 'r xindex \<Rightarrow> 'r xindex option" where
  "after_retries 0 env key val worker_id s = Some s"
| "after_retries (Suc n) env key val worker_id s =
     (case put_attempt env key val worker_id s of
        Inl e \<Rightarrow> None
      | Inr (res, s') \<Rightarrow>
          if res = retry
          then (case rcu_progress worker_id s' of
                  Inl e \<Rightarrow> None
                | Inr s'' \<Rightarrow> after_retries n env key val worker_id s'')
          else None)"

text \<open>The state with the epoch counter of one worker advanced by one and nothing else
  changed.\<close>

definition advance_epoch :: "nat \<Rightarrow> 'r xindex \<Rightarrow> 'r xindex" where
  "advance_epoch worker_id s =
     s\<lparr>rcu_status := (rcu_status s)[worker_id := Suc (rcu_status s ! worker_id)]\<rparr>"

text \<open>
  The concrete scenario of the specification as a program over the facade: construct,
  \<open>get(5)\<close>, \<open>put(4, 40)\<close>, \<open>get(4)\<close>, \<open>remove(3)\<close>, \<open>get(3)\<close>, \<open>range_scan(3, 8)\<close>,
  all by worker 0. It returns what the caller sees of each call; \<open>v0\<close> is what the
  caller's \<open>val\<close> holds before each \<open>get\<close>.
\<close>

definition concrete_scenario ::
  "(int, int, 'r) env \<Rightarrow> 'r xindex \<Rightarrow> int
     \<Rightarrow> ((bool \<times> int) \<times> bool \<times> (bool \<times> int) \<times> bool \<times> (bool \<times> int) \<times>
         nat \<times> (int \<times> int) list) option" where
  "concrete_scenario env s0 v0 =
     (case XIndex_ctor env s0 [1, 3, 5, 7, 9] [10, 30, 50, 70, 90] 1 0 of
        Inl e \<Rightarrow> None
      | Inr s1 \<Rightarrow>
     (case get env s1 5 v0 0 of
        Inl e \<Rightarrow> None
      | Inr (get5, s2) \<Rightarrow>
     (case put env s2 4 40 0 of
        None \<Rightarrow> None
      | Some (Inl e) \<Rightarrow> None
      | Some (Inr (put4, s3)) \<Rightarrow>
     (case get env s3 4 v0 0 of
        Inl e \<Rightarrow> None
      | Inr (get4, s4) \<Rightarrow>
     (case remove_key env s4 3 0 of
        Inl e \<Rightarrow> None
      | Inr (remove3, s5) \<Rightarrow>
     (case get env s5 3 v0 0 of
        Inl e \<Rightarrow> None
      | Inr (get3, s6) \<Rightarrow>
     (case range_scan env s6 3 8 [] 0 of
        Inl e \<Rightarrow> None
      | Inr (scan38, s7) \<Rightarrow> Some (get5, put4, get4, remove3, get3, scan38))))))))"

text \<open>
  The index of the running example: keys \<open>1, 3, 5, 7, 9\<close> with values
  \<open>10, 30, 50, 70, 90\<close>, one worker and no background thread, over a Root of 64
  bytes with table slots of 16 bytes, a single initial Group and a split threshold of
  four entries.
\<close>

definition demo_config :: config_t where
  "demo_config =
     \<lparr>root_error_bound = 32, root_memory_constraint = 1048576, group_error_bound = 32,
      group_error_tolerance = 4, buffer_size_bound = 256, buffer_size_tolerance = 3,
      buffer_compact_threshold = 8, worker_n = 0\<rparr>"

definition demo_env :: "(int, int, (int, int) root_t) env" where
  "demo_env = spec_env False 64 16 0 4"

definition demo_root :: "(int, int) root_t" where
  "demo_root =
     \<lparr>head_group = mk_group [(1, 10), (3, 30), (5, 50), (7, 70), (9, 90)], tail_groups = []\<rparr>"

definition demo_index :: "(int, int) root_t xindex" where
  "demo_index =
     \<lparr>root = Some (0, demo_root), bg_num = 0, config = demo_config\<lparr>worker_n := 1\<rparr>,
      allocated_bytes = 80, rcu_status = [0], next_addr = 1, events = [NewRoot 0]\<rparr>"

text \<open>
  The same keys in an index with two workers and one background thread, whose worker
  starts to compact the only Group, is held up for \<open>n\<close> steps and then ends the
  compaction; the split threshold is eight entries. \<open>busy_index n\<close> is the index as
  the constructor leaves it, \<open>busy_index_put es\<close> the index after \<open>put(4, 40)\<close> has
  returned, with the epoch counters at \<open>es\<close>.
\<close>

definition busy_steps :: "nat \<Rightarrow> worker_step list" where
  "busy_steps n = Begin_compaction 0 # replicate n Pause @ [Finish_compaction 0]"

definition busy_env :: "nat \<Rightarrow> (int, int, (int, int) shared_root_t) env" where
  "busy_env n = shared_env False 64 16 0 8 (busy_steps n)"

definition busy_index :: "nat \<Rightarrow> (int, int) shared_root_t xindex" where
  "busy_index n =
     \<lparr>root = Some (0, (demo_root, busy_steps n)), bg_num = 1,
      config = demo_config\<lparr>worker_n := 2\<rparr>, allocated_bytes = 80, rcu_status = [0, 0],
      next_addr = 1, events = [NewRoot 0]\<rparr>"

definition busy_index_put :: "nat list \<Rightarrow> (int, int) shared_root_t xindex" where
  "busy_index_put es =
     \<lparr>root = Some (0, (demo_root\<lparr>head_group :=
         (head_group demo_root)\<lparr>buffer := [(4, Some 40)]\<rparr>\<rparr>, [])),
      bg_num = 1, config = demo_config\<lparr>worker_n := 2\<rparr>, allocated_bytes = 80,
      rcu_status = es, next_addr = 1, events = [NewRoot 0]\<rparr>"

text \<open>
  A second index over the same keys: two workers, two background threads, initial
  Groups of three keys and a split threshold of two entries.
\<close>

definition split_env :: "(int, int, (int, int) root_t) env" where
  "split_env = spec_env False 64 16 3 2"

definition split_root :: "(int, int) root_t" where
  "split_root =
     \<lparr>head_group = mk_group [(1, 10), (3, 30), (5, 50)],
      tail_groups = [(7, mk_group [(7, 70), (9, 90)])]\<rparr>"

definition split_index :: "(int, int) root_t xindex" where
  "split_index =
     \<lparr>root = Some (0, split_root), bg_num = 2, config = demo_config\<lparr>worker_n := 2\<rparr>,
      allocated_bytes = 96, rcu_status = [0, 0], next_addr = 1, events = [NewRoot 0]\<rparr>"

text \<open>
  The second index through an adjustment round: what the two workers report, the Root
  after their evaluation, the Root that \<open>create_new_root\<close> builds, and the index once
  the Root is replaced, as a function of the events of the round.
\<close>

definition worked_info :: "bg_info_t list" where
  "worked_info =
     [\<lparr>bg_i = 0, bg_n = 2, started = False, finished = True, running = True,
       should_update_array = True\<rparr>,
      \<lparr>bg_i = 1, bg_n = 2, started = False, finished = True, running = True,
       should_update_array = False\<rparr>]"

definition adjusted_root :: "(int, int) root_t" where
  "adjusted_root = split_root\<lparr>head_group := (head_group split_root)\<lparr>gstate := split_needed\<rparr>\<rparr>"

definition rebuilt_root :: "(int, int) root_t" where
  "rebuilt_root =
     \<lparr>head_group = mk_group [(1, 10)],
      tail_groups = [(3, mk_group [(3, 30), (5, 50)]), (7, mk_group [(7, 70), (9, 90)])]\<rparr>"

definition rebuilt_index :: "event list \<Rightarrow> (int, int) root_t xindex" where
  "rebuilt_index es =
     split_index\<lparr>root := Some (1, rebuilt_root), allocated_bytes := 112, next_addr := 2,
       events := NewRoot 0 # es\<rparr>"

text \<open>
  The state after the Root \<open>r1\<close> at the live pointer has been replaced by \<open>r3\<close>, with
  the counter at \<open>a3\<close> before the old Root is retired and \<open>es\<close> the events on the way.
\<close>

definition swapped ::
  "('k, 'v, 'r) env \<Rightarrow> 'r xindex \<Rightarrow> 'r \<Rightarrow> 'r \<Rightarrow> size_t \<Rightarrow> event list \<Rightarrow> 'r xindex" where
  "swapped env s r1 r3 a3 es =
     s\<lparr>root := Some (next_addr s, r3),
       allocated_bytes := r_dtor env r1 (a3 - sizeof_root_t env),
       next_addr := Suc (next_addr s),
       events := events s @ es\<rparr>"

text \<open>Two states that differ in the epoch counters only, and two results of the put loop
  that agree up to such states.\<close>

definition same_but_epochs :: "'r xindex \<Rightarrow> 'r xindex \<Rightarrow> bool" where
  "same_but_epochs s t =
     (t = s\<lparr>rcu_status := rcu_status t\<rparr> \<and> length (rcu_status t) = length (rcu_status s))"

definition same_outcome ::
  "(error + (result_t \<times> 'r xindex)) \<Rightarrow> (error + (result_t \<times> 'r xindex)) \<Rightarrow> bool" where
  "same_outcome x y =
     rel_sum (=) (\<lambda>(res, s) (res', t). res = res' \<and> same_but_epochs s t) x y"

text \<open>What a call gives, the result and the state, with the epoch counters blanked.\<close>

definition but_epochs :: "error + ('a \<times> 'r xindex) \<Rightarrow> error + ('a \<times> 'r xindex)" where
  "but_epochs x = map_sum id (\<lambda>(y, t). (y, t\<lparr>rcu_status := []\<rparr>)) x"

section \<open>Properties\<close>

subsection \<open>Construction\<close>

lemma sanity_checks_None:
  "sanity_checks c = None \<longleftrightarrow>
     (0 < root_error_bound c \<and> 0 < root_memory_constraint c \<and> 0 < group_error_bound c \<and>
      0 < group_error_tolerance c \<and> 0 < buffer_size_bound c \<and> 0 < buffer_size_tolerance c \<and>
      0 < buffer_compact_threshold c \<and> 0 < worker_n c)"
  by (simp add: sanity_checks_def)

lemma sanity_checks_Some: "sanity_checks c = Some e \<Longrightarrow> \<exists>msg. e = InvariantFailed msg"
  by (auto simp: sanity_checks_def split: if_splits)

lemma chunks_whole: "length xs \<le> n \<Longrightarrow> chunks n xs = [xs]"
  by (subst chunks.simps) simp

lemma demo_index_built:
  "XIndex_ctor demo_env (fresh demo_config a) [1, 3, 5, 7, 9] [10, 30, 50, 70, 90] 1 0 =
     Inr demo_index"
  by (simp add: XIndex_ctor_def demo_env_def spec_env_def fresh_def demo_config_def
      sanity_checks_def assert_fails_def rcu_init_def emit_def root_init_def chunks_whole
      table_bytes_def demo_index_def demo_root_def Let_def)

lemma split_index_built:
  "XIndex_ctor split_env (fresh demo_config a) [1, 3, 5, 7, 9] [10, 30, 50, 70, 90] 2 2 =
     Inr split_index"
  by (simp add: XIndex_ctor_def split_env_def spec_env_def fresh_def demo_config_def
      sanity_checks_def assert_fails_def rcu_init_def emit_def root_init_def chunks.simps
      table_bytes_def split_index_def split_root_def pivot_group_def List.map_filter_simps
      Let_def numeral_2_eq_2)

text \<open>
  C6. The constructor checks the eight tunables to be strictly positive (the worker
  count is the constructor's argument, stored into the configuration first): it ends
  with a failed \<open>INVARIANT\<close>, and no index, exactly when one of them is not positive.
\<close>

theorem ctor_checks_config:
  "(\<exists>msg. XIndex_ctor env s keys vals worker_num n_bg = Inl (InvariantFailed msg)) =
     (root_error_bound (config s) \<le> 0 \<or> root_memory_constraint (config s) \<le> 0 \<or>
      group_error_bound (config s) \<le> 0 \<or> group_error_tolerance (config s) \<le> 0 \<or>
      buffer_size_bound (config s) \<le> 0 \<or> buffer_size_tolerance (config s) \<le> 0 \<or>
      buffer_compact_threshold (config s) \<le> 0 \<or> worker_num = 0)"
proof (cases "sanity_checks ((config s)\<lparr>worker_n := worker_num\<rparr>)")
  case None
  then have "\<not> (\<exists>msg. XIndex_ctor env s keys vals worker_num n_bg = Inl (InvariantFailed msg))"
    by (auto simp: XIndex_ctor_def Let_def emit_def split: prod.splits)
  with None show ?thesis
    by (simp add: sanity_checks_None not_le)
next
  case (Some e)
  then obtain msg where "e = InvariantFailed msg"
    using sanity_checks_Some by blast
  with Some have "XIndex_ctor env s keys vals worker_num n_bg = Inl (InvariantFailed msg)"
    by (simp add: XIndex_ctor_def Let_def)
  moreover from Some have "sanity_checks ((config s)\<lparr>worker_n := worker_num\<rparr>) \<noteq> None"
    by simp
  ultimately show ?thesis
    by (auto simp: sanity_checks_None not_less)
qed

text \<open>
  With \<open>buffer_size_bound = 0\<close> the constructor fails; with the tunables of the running
  example it does not.
\<close>

theorem ctor_checks_config_witness:
  "buffer_size_bound (demo_config\<lparr>buffer_size_bound := 0\<rparr>) \<le> 0 \<and>
   (\<exists>msg. XIndex_ctor demo_env (fresh (demo_config\<lparr>buffer_size_bound := 0\<rparr>) 0)
             [1, 3, 5, 7, 9] [10, 30, 50, 70, 90] 1 0 = Inl (InvariantFailed msg)) \<and>
   \<not> (\<exists>msg. XIndex_ctor demo_env (fresh demo_config 0)
             [1, 3, 5, 7, 9] [10, 30, 50, 70, 90] 1 0 = Inl (InvariantFailed msg))"
  using ctor_checks_config [of demo_env "fresh (demo_config\<lparr>buffer_size_bound := 0\<rparr>) 0"
      "[1, 3, 5, 7, 9]" "[10, 30, 50, 70, 90]" 1 0]
    ctor_checks_config [of demo_env "fresh demo_config 0"
      "[1, 3, 5, 7, 9]" "[10, 30, 50, 70, 90]" 1 0]
  by (simp add: fresh_def demo_config_def)

text \<open>
  C8. The accountant is not left alone outside matching allocations and deallocations:
  the constructor first sets the counter to zero. Constructed while 4096 bytes are
  accounted, the index is the same as the one constructed from zero, with 80 bytes
  accounted (the Root and its table) and the 4096 dropped without any deallocation.
\<close>

theorem ctor_resets_counter:
  "XIndex_ctor demo_env (fresh demo_config 4096) [1, 3, 5, 7, 9] [10, 30, 50, 70, 90] 1 0 =
     XIndex_ctor demo_env (fresh demo_config 0) [1, 3, 5, 7, 9] [10, 30, 50, 70, 90] 1 0 \<and>
   map_sum id allocated_bytes
     (XIndex_ctor demo_env (fresh demo_config 4096) [1, 3, 5, 7, 9] [10, 30, 50, 70, 90] 1 0) =
     Inr 80"
  unfolding demo_index_built by (simp add: demo_index_def)

subsection \<open>Destruction\<close>

lemma delete_root_eq:
  "delete_root env (p, r) s =
     (if assert_fails env (sizeof_root_t env < allocated_bytes s)
      then Inl (AssertionFailed ''_::allocated_bytes > bytes_to_delete'')
      else Inr (s\<lparr>allocated_bytes := r_dtor env r (allocated_bytes s - sizeof_root_t env),
                  events := events s @ [DeleteRoot p]\<rparr>))"
  by (simp add: delete_root_def emit_def Let_def)

text \<open>
  C10, as stated, fails. The index of the running example holds 80 accounted bytes, more
  than the 64 of a Root, so the assertion holds and the Root is deleted; the Root's
  destructor releases the 16 bytes of the table, the counter ends at zero and nothing
  is reported.
\<close>

theorem dtor_without_leak_report:
  "sizeof_root_t demo_env < allocated_bytes demo_index \<and>
   XIndex_dtor demo_env demo_index =
     Inr (demo_index\<lparr>root := None, allocated_bytes := 0, events := [NewRoot 0, DeleteRoot 0]\<rparr>)"
proof -
  have "delete_root demo_env (0, demo_root) demo_index =
      Inr (demo_index\<lparr>allocated_bytes := 0, events := [NewRoot 0, DeleteRoot 0]\<rparr>)"
    by (simp add: delete_root_eq assert_fails_def demo_env_def spec_env_def demo_index_def
        table_bytes_def demo_root_def)
  then show ?thesis
    by (simp add: XIndex_dtor_def leak_report_def demo_index_def demo_env_def spec_env_def)
qed

text \<open>
  C10, amended. The assertion of the destructor asks for strictly more accounted bytes
  than a Root has. Whenever it holds, the counter is strictly positive right after the
  destructor's own decrement; \<open>delete root\<close> then runs the Root's destructor, and the
  diagnostic reports what is accounted after that, or nothing when that is zero.
\<close>

theorem dtor_accounting:
  assumes "root s = Some (p, r)"
    and "sizeof_root_t env < allocated_bytes s"
  shows "0 < allocated_bytes s - sizeof_root_t env \<and>
     XIndex_dtor env s =
       (let a = r_dtor env r (allocated_bytes s - sizeof_root_t env)
        in Inr (s\<lparr>root := None, allocated_bytes := a,
                   events := events s @ DeleteRoot p # (if 0 < a then [Leaking a] else [])\<rparr>))"
proof -
  from assms(2) have "allocated_bytes s - sizeof_root_t env \<noteq> 0"
    by auto
  then have 1: "0 < allocated_bytes s - sizeof_root_t env"
    by (simp add: word_greater_zero_iff)
  have 2: "delete_root env (p, r) s =
      Inr (s\<lparr>allocated_bytes := r_dtor env r (allocated_bytes s - sizeof_root_t env),
             events := events s @ [DeleteRoot p]\<rparr>)"
    using assms(2) by (simp add: delete_root_eq assert_fails_def)
  show ?thesis
    using 1 by (simp add: XIndex_dtor_def assms(1) 2 leak_report_def emit_def Let_def)
qed

text \<open>With one byte more accounted than the example index allocated, that byte is reported.\<close>

theorem dtor_accounting_witness:
  "sizeof_root_t demo_env < allocated_bytes (demo_index\<lparr>allocated_bytes := 81\<rparr>) \<and>
   XIndex_dtor demo_env (demo_index\<lparr>allocated_bytes := 81\<rparr>) =
     Inr (demo_index\<lparr>root := None, allocated_bytes := 1,
            events := [NewRoot 0, DeleteRoot 0, Leaking 1]\<rparr>)"
proof -
  have r: "root (demo_index\<lparr>allocated_bytes := 81\<rparr>) = Some (0, demo_root)"
    by (simp add: demo_index_def)
  have l: "sizeof_root_t demo_env < allocated_bytes (demo_index\<lparr>allocated_bytes := 81\<rparr>)"
    by (simp add: demo_env_def spec_env_def)
  show ?thesis
    using dtor_accounting [OF r l] l
    by (simp add: demo_env_def spec_env_def demo_index_def table_bytes_def demo_root_def)
qed

subsection \<open>The concrete scenario\<close>

lemma group_size_cases:
  fixes g :: nat
  obtains "g = 0" | "g = 1" | "g = 2" | "g = 3" | "g = 4" | "5 \<le> g"
  by linarith

lemmas scenario_defs = concrete_scenario_def XIndex_ctor_def assert_fails_def
  fresh_def rcu_init_def emit_def get_def put_def put_loop.simps put_attempt_def rcu_progress_def
  remove_key_def range_scan_def spec_env_def Let_def
  root_init_def root_get_def root_put_def root_remove_def root_range_scan_def
  entries_from_def group_entries_def group_get_def group_put_def group_remove_def
  group_lookup_def mk_group_def pivot_group_def table_bytes_def
  List.map_filter_simps

text \<open>
  C1. Constructed over keys \<open>1, 3, 5, 7, 9\<close> and values \<open>10, 30, 50, 70, 90\<close> with one
  worker and no background thread, the index answers \<open>get(5)\<close> with \<open>(true, 50)\<close>,
  after \<open>put(4, 40)\<close> it answers \<open>get(4)\<close> with \<open>(true, 40)\<close>, after \<open>remove(3)\<close> it
  answers \<open>get(3)\<close> with \<open>false\<close> and leaves the caller's value alone, and
  \<open>range_scan(3, 8)\<close> yields the three pairs \<open>(4, 40), (5, 50), (7, 70)\<close> in this order.
  This holds for every valid configuration, every initial Group size and split
  threshold, every object size and both build modes.
\<close>

theorem concrete_scenario_result:
  assumes "0 < root_error_bound c" and "0 < root_memory_constraint c"
    and "0 < group_error_bound c" and "0 < group_error_tolerance c"
    and "0 < buffer_size_bound c" and "0 < buffer_size_tolerance c"
    and "0 < buffer_compact_threshold c"
  shows "concrete_scenario (spec_env ndbg sz_root sz_slot group_size max_size) (fresh c a) v0 =
     Some ((True, 50), True, (True, 40), True, (False, v0), 3, [(4, 40), (5, 50), (7, 70)])"
proof -
  have c: "sanity_checks (c\<lparr>worker_n := Suc 0\<rparr>) = None"
    using assms by (simp add: sanity_checks_None)
  show ?thesis
  proof (cases group_size rule: group_size_cases)
    case 1
    then show ?thesis using c by (simp add: scenario_defs chunks.simps)
  next
    case 2
    then show ?thesis using c by (simp add: scenario_defs chunks.simps)
  next
    case 3
    then show ?thesis using c by (simp add: scenario_defs chunks.simps)
  next
    case 4
    then show ?thesis using c by (simp add: scenario_defs chunks.simps)
  next
    case 5
    then show ?thesis using c by (simp add: scenario_defs chunks.simps)
  next
    case 6
    then show ?thesis using c by (simp add: scenario_defs chunks_whole)
  qed
qed

theorem concrete_scenario_result_witness:
  "concrete_scenario demo_env (fresh demo_config 0) 0 =
     Some ((True, 50), True, (True, 40), True, (False, 0), 3, [(4, 40), (5, 50), (7, 70)])"
  unfolding demo_env_def
  by (rule concrete_scenario_result) (simp_all add: demo_config_def)

subsection \<open>The retry loop of put\<close>

lemma upto_imp_loop:
  "put_loop_upto n env key val w s = Some y \<Longrightarrow> put_loop env key val w s = Some y"
proof (induction n arbitrary: s)
  case 0
  then show ?case by simp
next
  case (Suc n)
  show ?case
    using Suc.prems Suc.IH
    by (subst put_loop.simps) (auto split: sum.splits prod.splits if_splits)
qed

lemma loop_imp_upto:
  assumes "put_loop env key val w s = Some y"
  shows "\<exists>n. put_loop_upto n env key val w s = Some y"
proof (rule put_loop.raw_induct [where P = "\<lambda>env key val w s y.
           \<exists>n. put_loop_upto n env key val w s = Some y", OF _ assms], goal_cases)
  case (1 f env key val w s y)
  note IH = 1(1) and step = 1(2)
  show ?case
  proof (cases "put_attempt env key val w s")
    case (Inl e)
    with step have "y = Inl e" by simp
    with Inl have "put_loop_upto (Suc 0) env key val w s = Some y" by simp
    then show ?thesis by blast
  next
    case (Inr x)
    obtain res s' where x: "x = (res, s')" by (cases x)
    show ?thesis
    proof (cases "res = retry")
      case False
      with step Inr x have "y = Inr (res, s')" by simp
      with Inr x False have "put_loop_upto (Suc 0) env key val w s = Some y" by simp
      then show ?thesis by blast
    next
      case True
      show ?thesis
      proof (cases "rcu_progress w s'")
        case (Inl e)
        with step Inr x True have "y = Inl e" by simp
        with Inl Inr x True have "put_loop_upto (Suc 0) env key val w s = Some y" by simp
        then show ?thesis by blast
      next
        case r: (Inr s'')
        with step Inr x True have "f env key val w s'' = Some y" by simp
        then obtain n where "put_loop_upto n env key val w s'' = Some y"
          using IH by blast
        with Inr x True r have "put_loop_upto (Suc n) env key val w s = Some y" by simp
        then show ?thesis by blast
      qed
    qed
  qed
qed

lemma after_retries_loop:
  "after_retries n env key val w s = Some t \<Longrightarrow>
     put_loop env key val w s = put_loop env key val w t"
proof (induction n arbitrary: s)
  case 0
  then show ?case by simp
next
  case (Suc n)
  from Suc.prems obtain s' s'' where a: "put_attempt env key val w s = Inr (retry, s')"
    and p: "rcu_progress w s' = Inr s''" and r: "after_retries n env key val w s'' = Some t"
    by (auto split: sum.splits prod.splits if_splits)
  have "put_loop env key val w s = put_loop env key val w s''"
    using a p by (subst put_loop.simps) simp
  with Suc.IH [OF r] show ?case by simp
qed

lemma retries_imp_loop:
  assumes "after_retries n env key val w s = Some t"
    and "put_attempt env key val w t = Inr (res, s')" and "res \<noteq> retry"
  shows "put_loop env key val w s = Some (Inr (res, s'))"
proof -
  have "put_loop env key val w t = Some (Inr (res, s'))"
    using assms(2,3) by (subst put_loop.simps) simp
  with after_retries_loop [OF assms(1)] show ?thesis by simp
qed

lemma loop_imp_retries:
  assumes "put_loop env key val w s = Some y"
  shows "\<forall>res s'. y = Inr (res, s') \<longrightarrow>
           (\<exists>n t. after_retries n env key val w s = Some t \<and>
                  put_attempt env key val w t = Inr (res, s') \<and> res \<noteq> retry)"
proof (rule put_loop.raw_induct [where P = "\<lambda>env key val w s y. \<forall>res s'. y = Inr (res, s') \<longrightarrow>
           (\<exists>n t. after_retries n env key val w s = Some t \<and>
                  put_attempt env key val w t = Inr (res, s') \<and> res \<noteq> retry)", OF _ assms],
       goal_cases)
  case (1 f env key val w s y)
  note IH = 1(1) and step = 1(2)
  show ?case
  proof (intro allI impI)
    fix res s'
    assume y: "y = Inr (res, s')"
    show "\<exists>n t. after_retries n env key val w s = Some t \<and>
                  put_attempt env key val w t = Inr (res, s') \<and> res \<noteq> retry"
    proof (cases "put_attempt env key val w s")
      case (Inl e)
      with step y show ?thesis by simp
    next
      case (Inr x)
      obtain res1 s1 where x: "x = (res1, s1)" by (cases x)
      show ?thesis
      proof (cases "res1 = retry")
        case False
        with step Inr x y have "res1 = res" "s1 = s'" by simp_all
        with Inr x False have "after_retries 0 env key val w s = Some s \<and>
                  put_attempt env key val w s = Inr (res, s') \<and> res \<noteq> retry"
          by simp
        then show ?thesis by blast
      next
        case True
        show ?thesis
        proof (cases "rcu_progress w s1")
          case (Inl e)
          with step Inr x True y show ?thesis by simp
        next
          case r: (Inr s2)
          with step Inr x True have "f env key val w s2 = Some y" by simp
          from IH [OF this] y obtain n t where
            n: "after_retries n env key val w s2 = Some t"
            and t: "put_attempt env key val w t = Inr (res, s')" and ne: "res \<noteq> retry"
            by blast
          from n Inr x True r have "after_retries (Suc n) env key val w s = Some t" by simp
          with t ne show ?thesis by blast
        qed
      qed
    qed
  qed
qed

text \<open>
  C4. \<open>put\<close> returns the boolean \<open>b\<close> in state \<open>s'\<close> exactly when, after the entry
  \<open>rcu_progress\<close>, some number of calls of \<open>root->put\<close> were answered \<open>retry\<close>, each
  followed by \<open>rcu_progress\<close> and another call, and the call after them was answered
  with a result other than \<open>retry\<close>, of which \<open>b\<close> says whether it was \<open>ok\<close>. Every
  \<open>retry\<close> is taken up by the loop, and none reaches the caller.
\<close>

theorem put_never_exposes_retry:
  "put env s key val w = Some (Inr (b, s')) \<longleftrightarrow>
     (\<exists>s1 n t res. rcu_progress w s = Inr s1 \<and> after_retries n env key val w s1 = Some t \<and>
        put_attempt env key val w t = Inr (res, s') \<and> res \<noteq> retry \<and> b = (res = ok))"
proof
  assume p: "put env s key val w = Some (Inr (b, s'))"
  then obtain s1 where s1: "rcu_progress w s = Inr s1"
    by (cases "rcu_progress w s") (simp_all add: put_def)
  with p obtain res where l: "put_loop env key val w s1 = Some (Inr (res, s'))"
    and b: "b = (res = ok)"
    by (auto simp: put_def split: option.splits sum.splits)
  from loop_imp_retries [OF l] obtain n t where
    "after_retries n env key val w s1 = Some t"
    "put_attempt env key val w t = Inr (res, s')" "res \<noteq> retry"
    by blast
  with s1 b show "\<exists>s1 n t res. rcu_progress w s = Inr s1 \<and>
        after_retries n env key val w s1 = Some t \<and>
        put_attempt env key val w t = Inr (res, s') \<and> res \<noteq> retry \<and> b = (res = ok)"
    by blast
next
  assume "\<exists>s1 n t res. rcu_progress w s = Inr s1 \<and> after_retries n env key val w s1 = Some t \<and>
        put_attempt env key val w t = Inr (res, s') \<and> res \<noteq> retry \<and> b = (res = ok)"
  then obtain s1 n t res where s1: "rcu_progress w s = Inr s1"
    and n: "after_retries n env key val w s1 = Some t"
    and t: "put_attempt env key val w t = Inr (res, s')" and ne: "res \<noteq> retry"
    and b: "b = (res = ok)"
    by blast
  from retries_imp_loop [OF n t ne] s1 b show "put env s key val w = Some (Inr (b, s'))"
    by (simp add: put_def)
qed


lemma busy_attempt_begin:
  assumes "root s = Some (p, (demo_root, Begin_compaction 0 # sts))"
  shows "put_attempt (busy_env k) 4 40 w s =
           Inr (retry, s\<lparr>root := Some (p, (map_group_at 0 group_begin_compaction demo_root, sts))\<rparr>)"
  using assms
  by (simp add: put_attempt_def busy_env_def shared_env_def shared_put_def worker_step_on_def
      map_group_at_def group_begin_compaction_def demo_root_def mk_group_def root_put_def
      group_put_def)

lemma busy_attempt_pause:
  assumes "root s = Some (p, (map_group_at 0 group_begin_compaction demo_root, Pause # sts))"
  shows "put_attempt (busy_env k) 4 40 w s =
           Inr (retry, s\<lparr>root := Some (p, (map_group_at 0 group_begin_compaction demo_root, sts))\<rparr>)"
  using assms
  by (simp add: put_attempt_def busy_env_def shared_env_def shared_put_def worker_step_on_def
      map_group_at_def group_begin_compaction_def demo_root_def mk_group_def root_put_def
      group_put_def)

lemma busy_attempt_finish:
  assumes "root s = Some (p, (map_group_at 0 group_begin_compaction demo_root,
             Finish_compaction 0 # sts))"
  shows "put_attempt (busy_env k) 4 40 w s =
           Inr (ok, s\<lparr>root := Some (p, (demo_root\<lparr>head_group :=
             (head_group demo_root)\<lparr>buffer := [(4, Some 40)]\<rparr>\<rparr>, sts))\<rparr>)"
  using assms
  by (simp add: put_attempt_def busy_env_def shared_env_def shared_put_def worker_step_on_def
      map_group_at_def group_begin_compaction_def group_adjust_def group_entries_def
      demo_root_def mk_group_def root_put_def group_put_def List.map_filter_simps)


text \<open>
  On the index whose worker is held up for one step, \<open>put(4, 40)\<close> by worker 0 is
  answered \<open>retry\<close> twice, while the Group is being compacted, and \<open>ok\<close> at the third
  call; the caller gets \<open>true\<close>, and the epoch counter of worker 0 has advanced three
  times.
\<close>

theorem put_never_exposes_retry_witness:
  "rcu_progress 0 (busy_index 1) = Inr ((busy_index 1)\<lparr>rcu_status := [1, 0]\<rparr>) \<and>
   after_retries 2 (busy_env 1) 4 40 0 ((busy_index 1)\<lparr>rcu_status := [1, 0]\<rparr>) =
     Some ((busy_index 1)\<lparr>root := Some (0, (map_group_at 0 group_begin_compaction demo_root,
             [Finish_compaction 0])), rcu_status := [3, 0]\<rparr>) \<and>
   put_attempt (busy_env 1) 4 40 0
       ((busy_index 1)\<lparr>root := Some (0, (map_group_at 0 group_begin_compaction demo_root,
             [Finish_compaction 0])), rcu_status := [3, 0]\<rparr>) =
     Inr (ok, busy_index_put [3, 0]) \<and>
   put (busy_env 1) (busy_index 1) 4 40 0 = Some (Inr (True, busy_index_put [3, 0]))"
proof -
  let ?s1 = "(busy_index 1)\<lparr>rcu_status := [1, 0]\<rparr>"
  let ?t = "(busy_index 1)\<lparr>root := Some (0, (map_group_at 0 group_begin_compaction demo_root,
             [Finish_compaction 0])), rcu_status := [3, 0]\<rparr>"
  have p: "rcu_progress 0 (busy_index 1) = Inr ?s1"
    by (simp add: rcu_progress_def busy_index_def)
  let ?s1' = "?s1\<lparr>root := Some (0, (map_group_at 0 group_begin_compaction demo_root,
             [Pause, Finish_compaction 0]))\<rparr>"
  let ?s2 = "?s1'\<lparr>rcu_status := [2, 0]\<rparr>"
  let ?s2' = "?s2\<lparr>root := Some (0, (map_group_at 0 group_begin_compaction demo_root,
             [Finish_compaction 0]))\<rparr>"
  have a1: "put_attempt (busy_env 1) 4 40 0 ?s1 = Inr (retry, ?s1')"
    by (rule busy_attempt_begin) (simp add: busy_index_def busy_steps_def)
  have q1: "rcu_progress 0 ?s1' = Inr ?s2"
    by (simp add: rcu_progress_def busy_index_def)
  have a2: "put_attempt (busy_env 1) 4 40 0 ?s2 = Inr (retry, ?s2')"
    by (rule busy_attempt_pause) simp
  have q2: "rcu_progress 0 ?s2' = Inr ?t"
    by (simp add: rcu_progress_def busy_index_def)
  have "after_retries (Suc (Suc 0)) (busy_env 1) 4 40 0 ?s1 = Some ?t"
    by (simp only: after_retries.simps a1 q1 a2 q2 sum.case prod.case if_True simp_thms)
  then have r: "after_retries 2 (busy_env 1) 4 40 0 ?s1 = Some ?t"
    by (simp only: numeral_2_eq_2)
  have a3: "put_attempt (busy_env 1) 4 40 0 ?t = Inr (ok, busy_index_put [3, 0])"
    by (simp add: busy_attempt_finish [where p = 0 and sts = "[]"] busy_index_def
        busy_index_put_def)
  have "put (busy_env 1) (busy_index 1) 4 40 0 = Some (Inr (True, busy_index_put [3, 0]))"
    using put_never_exposes_retry [of "busy_env 1" "busy_index 1" 4 40 0 True
        "busy_index_put [3, 0]"] p r a3
    by blast
  with p r a3 show ?thesis by simp
qed

lemma busy_spin:
  assumes "root s = Some (p, (map_group_at 0 group_begin_compaction demo_root,
             replicate m Pause @ [Finish_compaction 0]))"
    and "0 < length (rcu_status s)"
  shows "put_loop_upto m (busy_env k) 4 40 0 s = None \<and>
         put_loop_upto (Suc m) (busy_env k) 4 40 0 s =
           Some (Inr (ok, s\<lparr>root := Some (p, (demo_root\<lparr>head_group :=
                   (head_group demo_root)\<lparr>buffer := [(4, Some 40)]\<rparr>\<rparr>, [])),
                 rcu_status := (rcu_status s)[0 := rcu_status s ! 0 + m]\<rparr>))"
  using assms
proof (induction m arbitrary: s)
  case 0
  then have "root s = Some (p, (map_group_at 0 group_begin_compaction demo_root,
             Finish_compaction 0 # []))"
    by simp
  from busy_attempt_finish [OF this] show ?case
    by (cases s) simp
next
  case (Suc m)
  let ?s' = "s\<lparr>root := Some (p, (map_group_at 0 group_begin_compaction demo_root,
               replicate m Pause @ [Finish_compaction 0]))\<rparr>"
  let ?s'' = "?s'\<lparr>rcu_status := (rcu_status s)[0 := Suc (rcu_status s ! 0)]\<rparr>"
  from Suc.prems(1) have "root s = Some (p, (map_group_at 0 group_begin_compaction demo_root,
             Pause # (replicate m Pause @ [Finish_compaction 0])))"
    by simp
  from busy_attempt_pause [OF this]
  have a: "put_attempt (busy_env k) 4 40 0 s = Inr (retry, ?s')" .
  have q: "rcu_progress 0 ?s' = Inr ?s''"
    using Suc.prems(2) by (simp add: rcu_progress_def)
  have "put_loop_upto m (busy_env k) 4 40 0 ?s'' = None \<and>
         put_loop_upto (Suc m) (busy_env k) 4 40 0 ?s'' =
           Some (Inr (ok, ?s''\<lparr>root := Some (p, (demo_root\<lparr>head_group :=
                   (head_group demo_root)\<lparr>buffer := [(4, Some 40)]\<rparr>\<rparr>, [])),
                 rcu_status := (rcu_status ?s'')[0 := rcu_status ?s'' ! 0 + m]\<rparr>))"
    using Suc.prems(2) by (intro Suc.IH) simp_all
  then have n: "put_loop_upto m (busy_env k) 4 40 0 ?s'' = None"
    and y: "put_loop_upto (Suc m) (busy_env k) 4 40 0 ?s'' =
           Some (Inr (ok, ?s''\<lparr>root := Some (p, (demo_root\<lparr>head_group :=
                   (head_group demo_root)\<lparr>buffer := [(4, Some 40)]\<rparr>\<rparr>, [])),
                 rcu_status := (rcu_status ?s'')[0 := rcu_status ?s'' ! 0 + m]\<rparr>))"
    by blast+
  have 1: "put_loop_upto (Suc m) (busy_env k) 4 40 0 s = None"
    using a q n by (simp del: put_loop_upto.simps add: put_loop_upto.simps(2) [of m])
  have 2: "put_loop_upto (Suc (Suc m)) (busy_env k) 4 40 0 s =
      put_loop_upto (Suc m) (busy_env k) 4 40 0 ?s''"
    using a q by (simp del: put_loop_upto.simps add: put_loop_upto.simps(2) [of "Suc m"])
  show ?case
    unfolding 2 y using 1 Suc.prems(2) by (cases s) simp
qed

lemma busy_put:
  "put_upto (Suc n) (busy_env n) (busy_index n) 4 40 0 = None \<and>
   put_upto (Suc (Suc n)) (busy_env n) (busy_index n) 4 40 0 =
     Some (Inr (True, busy_index_put [n + 2, 0]))"
proof -
  let ?s1 = "(busy_index n)\<lparr>rcu_status := [1, 0]\<rparr>"
  let ?s2 = "?s1\<lparr>root := Some (0, (map_group_at 0 group_begin_compaction demo_root,
               replicate n Pause @ [Finish_compaction 0]))\<rparr>"
  let ?s3 = "?s2\<lparr>rcu_status := [2, 0]\<rparr>"
  have p: "rcu_progress 0 (busy_index n) = Inr ?s1"
    by (simp add: rcu_progress_def busy_index_def)
  have a: "put_attempt (busy_env n) 4 40 0 ?s1 = Inr (retry, ?s2)"
    by (rule busy_attempt_begin) (simp add: busy_index_def busy_steps_def)
  have q: "rcu_progress 0 ?s2 = Inr ?s3"
    by (simp add: rcu_progress_def busy_index_def)
  have "put_loop_upto n (busy_env n) 4 40 0 ?s3 = None \<and>
         put_loop_upto (Suc n) (busy_env n) 4 40 0 ?s3 =
           Some (Inr (ok, ?s3\<lparr>root := Some (0, (demo_root\<lparr>head_group :=
                   (head_group demo_root)\<lparr>buffer := [(4, Some 40)]\<rparr>\<rparr>, [])),
                 rcu_status := (rcu_status ?s3)[0 := rcu_status ?s3 ! 0 + n]\<rparr>))"
    by (rule busy_spin) simp_all
  then have n: "put_loop_upto n (busy_env n) 4 40 0 ?s3 = None"
    and y: "put_loop_upto (Suc n) (busy_env n) 4 40 0 ?s3 =
           Some (Inr (ok, busy_index_put [n + 2, 0]))"
    by (simp_all add: busy_index_def busy_index_put_def)
  have 1: "put_loop_upto (Suc n) (busy_env n) 4 40 0 ?s1 = None"
    using a q n by (simp del: put_loop_upto.simps add: put_loop_upto.simps(2) [of n])
  have 2: "put_loop_upto (Suc (Suc n)) (busy_env n) 4 40 0 ?s1 =
      Some (Inr (ok, busy_index_put [n + 2, 0]))"
    using a q y by (simp del: put_loop_upto.simps add: put_loop_upto.simps(2) [of "Suc n"])
  from p 1 2 show ?thesis
    by (simp add: put_upto_def)
qed

lemma busy_put_returns:
  "put (busy_env n) (busy_index n) 4 40 0 = Some (Inr (True, busy_index_put [n + 2, 0]))"
proof -
  obtain s1 where s1: "rcu_progress 0 (busy_index n) = Inr s1"
    by (simp add: rcu_progress_def busy_index_def)
  from busy_put [of n] have u: "put_upto (Suc (Suc n)) (busy_env n) (busy_index n) 4 40 0 =
     Some (Inr (True, busy_index_put [n + 2, 0]))"
    by blast
  then obtain z where z: "put_loop_upto (Suc (Suc n)) (busy_env n) 4 40 0 s1 = Some z"
    unfolding put_upto_def s1 by (auto split: option.splits)
  from upto_imp_loop [OF z] u z s1 show ?thesis
    by (simp add: put_def put_upto_def del: put_loop_upto.simps)
qed





subsection \<open>The worker identifier\<close>

lemma same_but_epochs_iff:
  "same_but_epochs s t \<longleftrightarrow> (\<exists>es. t = s\<lparr>rcu_status := es\<rparr> \<and> length es = length (rcu_status s))"
proof
  assume "same_but_epochs s t"
  then have "t = s\<lparr>rcu_status := rcu_status t\<rparr>"
    and "length (rcu_status t) = length (rcu_status s)"
    by (simp_all add: same_but_epochs_def)
  then show "\<exists>es. t = s\<lparr>rcu_status := es\<rparr> \<and> length es = length (rcu_status s)"
    by blast
next
  assume "\<exists>es. t = s\<lparr>rcu_status := es\<rparr> \<and> length es = length (rcu_status s)"
  then obtain es where t: "t = s\<lparr>rcu_status := es\<rparr>" and l: "length es = length (rcu_status s)"
    by blast
  show "same_but_epochs s t"
    unfolding same_but_epochs_def t using l by simp
qed

lemma same_but_epochs_update:
  assumes "same_but_epochs s t"
  shows "same_but_epochs (s\<lparr>root := x, allocated_bytes := y\<rparr>)
           (t\<lparr>root := x, allocated_bytes := y\<rparr>)"
proof -
  from assms obtain es where t: "t = s\<lparr>rcu_status := es\<rparr>"
    and l: "length es = length (rcu_status s)"
    by (auto simp: same_but_epochs_iff)
  have "t\<lparr>root := x, allocated_bytes := y\<rparr> =
        (s\<lparr>root := x, allocated_bytes := y\<rparr>)\<lparr>rcu_status := es\<rparr>"
    unfolding t by (cases s) simp
  with l show ?thesis
    by (auto simp: same_but_epochs_iff)
qed

lemma same_but_epochs_sym: "same_but_epochs s t \<Longrightarrow> same_but_epochs t s"
proof -
  assume "same_but_epochs s t"
  then obtain es where t: "t = s\<lparr>rcu_status := es\<rparr>" and l: "length es = length (rcu_status s)"
    by (auto simp: same_but_epochs_iff)
  have "s = t\<lparr>rcu_status := rcu_status s\<rparr>"
    unfolding t by simp
  moreover have "length (rcu_status s) = length (rcu_status t)"
    using l by (simp add: t)
  ultimately show ?thesis
    unfolding same_but_epochs_iff by blast
qed

lemma same_but_epochs_length:
  "same_but_epochs s t \<Longrightarrow> length (rcu_status t) = length (rcu_status s)"
  by (auto simp: same_but_epochs_iff)

lemma same_but_epochs_erase:
  "same_but_epochs s t \<Longrightarrow> t\<lparr>rcu_status := []\<rparr> = s\<lparr>rcu_status := []\<rparr>"
  by (auto simp: same_but_epochs_iff)

lemma put_attempt_same:
  assumes "same_but_epochs s t"
    and "\<And>r a. r_put env r key val w a = r_put env' r key val w' a"
  shows "same_outcome (put_attempt env key val w s) (put_attempt env' key val w' t)"
proof -
  from assms(1) have f: "root t = root s" "allocated_bytes t = allocated_bytes s"
    by (auto simp: same_but_epochs_iff)
  show ?thesis
    using same_but_epochs_update [OF assms(1)]
    by (auto simp: put_attempt_def f same_outcome_def assms(2)
        split: option.splits prod.splits)
qed

lemma rcu_progress_same:
  assumes "same_but_epochs s t" and "w < length (rcu_status s)" and "w' < length (rcu_status s)"
  shows "\<exists>s' t'. rcu_progress w s = Inr s' \<and> rcu_progress w' t = Inr t' \<and> same_but_epochs s' t'
           \<and> length (rcu_status s') = length (rcu_status s)"
  using assms by (auto simp: rcu_progress_def same_but_epochs_iff)

lemma put_loop_upto_same:
  assumes "\<And>r a. r_put env r key val w a = r_put env' r key val w' a"
  shows "same_but_epochs s t \<Longrightarrow> w < length (rcu_status s) \<Longrightarrow> w' < length (rcu_status s) \<Longrightarrow>
     rel_option same_outcome (put_loop_upto n env key val w s)
       (put_loop_upto n env' key val w' t)"
proof (induction n arbitrary: s t)
  case 0
  show ?case by simp
next
  case (Suc n)
  from put_attempt_same [OF Suc.prems(1) assms]
  have a: "same_outcome (put_attempt env key val w s) (put_attempt env' key val w' t)" .
  show ?case
  proof (cases "put_attempt env key val w s")
    case (Inl e)
    with a show ?thesis
      by (cases "put_attempt env' key val w' t") (simp_all add: same_outcome_def)
  next
    case (Inr x)
    obtain res s1 where x: "x = (res, s1)" by (cases x)
    from a Inr x obtain t1 where y: "put_attempt env' key val w' t = Inr (res, t1)"
      and e: "same_but_epochs s1 t1"
      by (cases "put_attempt env' key val w' t") (auto simp: same_outcome_def)
    show ?thesis
    proof (cases "res = retry")
      case False
      with Inr x y e show ?thesis by (simp add: same_outcome_def)
    next
      case True
      have l: "length (rcu_status s1) = length (rcu_status s)"
        using Inr x by (auto simp: put_attempt_def split: option.splits prod.splits)
      from rcu_progress_same [OF e, of w w'] Suc.prems(2,3) l
      obtain s2 t2 where p: "rcu_progress w s1 = Inr s2" and q: "rcu_progress w' t1 = Inr t2"
        and e2: "same_but_epochs s2 t2" and l2: "length (rcu_status s2) = length (rcu_status s1)"
        by auto
      have "rel_option same_outcome (put_loop_upto n env key val w s2)
              (put_loop_upto n env' key val w' t2)"
        using e2 l2 l Suc.prems(2,3) by (intro Suc.IH) simp_all
      with Inr x y True p q show ?thesis by simp
    qed
  qed
qed

lemma put_loop_same_Some:
  assumes "\<And>r a. r_put env r key val w a = r_put env' r key val w' a"
    and "same_but_epochs s t" and "w < length (rcu_status s)" and "w' < length (rcu_status s)"
    and "put_loop env key val w s = Some y"
  shows "\<exists>y'. put_loop env' key val w' t = Some y' \<and> same_outcome y y'"
proof -
  from loop_imp_upto [OF assms(5)] obtain n where n: "put_loop_upto n env key val w s = Some y" ..
  from put_loop_upto_same [OF assms(1-4), of n] n
  obtain y' where u: "put_loop_upto n env' key val w' t = Some y'" and o: "same_outcome y y'"
    by (cases "put_loop_upto n env' key val w' t") auto
  from upto_imp_loop [OF u] o show ?thesis by blast
qed

lemma put_loop_same:
  assumes "\<And>r a. r_put env r key val w a = r_put env' r key val w' a"
    and "same_but_epochs s t" and "w < length (rcu_status s)" and "w' < length (rcu_status s)"
  shows "rel_option same_outcome (put_loop env key val w s) (put_loop env' key val w' t)"
proof (cases "put_loop env key val w s")
  case (Some y)
  from put_loop_same_Some [OF assms Some] Some show ?thesis by auto
next
  case None
  have "put_loop env' key val w' t = None"
  proof (cases "put_loop env' key val w' t")
    case (Some y')
    have "\<exists>y. put_loop env key val w s = Some y \<and> same_outcome y' y"
      using assms(3,4) same_but_epochs_length [OF assms(2)]
      by (intro put_loop_same_Some [OF _ same_but_epochs_sym [OF assms(2)] _ _ Some])
         (simp_all add: assms(1))
    with None show ?thesis by simp
  qed simp
  with None show ?thesis by simp
qed

lemma put_same:
  assumes "\<And>r a. r_put env r key val w a = r_put env' r key val w' a"
    and "w < length (rcu_status s)" and "w' < length (rcu_status s)"
  shows "map_option but_epochs (put env s key val w) =
         map_option but_epochs (put env' s key val w')"
proof -
  have "same_but_epochs s s"
    by (auto simp: same_but_epochs_iff intro: exI [of _ "rcu_status s"])
  from rcu_progress_same [OF this assms(2,3)]
  obtain s1 t1 where s1: "rcu_progress w s = Inr s1" and t1: "rcu_progress w' s = Inr t1"
    and e: "same_but_epochs s1 t1" and l: "length (rcu_status s1) = length (rcu_status s)"
    by blast
  have "rel_option same_outcome (put_loop env key val w s1) (put_loop env' key val w' t1)"
    using e l assms(2,3) by (intro put_loop_same) (simp_all add: assms(1))
  then show ?thesis
    by (cases "put_loop env key val w s1"; cases "put_loop env' key val w' t1")
       (auto simp: put_def s1 t1 same_outcome_def rel_sum.simps but_epochs_def
          dest: same_but_epochs_erase)
qed

lemma shared_put_worker:
  "shared_put max_size sr k v w = shared_put max_size sr k v w'"
  unfolding shared_put_def root_put_def by (rule refl)

lemma put_loop_epochs:
  assumes "put_loop env key val w s = Some y"
  shows "\<forall>res s'. y = Inr (res, s') \<longrightarrow>
           (\<exists>k. rcu_status s' = (rcu_status s)[w := rcu_status s ! w + k])"
proof (rule put_loop.raw_induct [where P = "\<lambda>env key val w s y. \<forall>res s'. y = Inr (res, s') \<longrightarrow>
           (\<exists>k. rcu_status s' = (rcu_status s)[w := rcu_status s ! w + k])", OF _ assms],
       goal_cases)
  case (1 f env key val w s y)
  note IH = 1(1) and step = 1(2)
  show ?case
  proof (intro allI impI)
    fix res s'
    assume y: "y = Inr (res, s')"
    show "\<exists>k. rcu_status s' = (rcu_status s)[w := rcu_status s ! w + k]"
    proof (cases "put_attempt env key val w s")
      case (Inl e)
      with step y show ?thesis by simp
    next
      case (Inr x)
      obtain res1 s1 where x: "x = (res1, s1)" by (cases x)
      have e1: "rcu_status s1 = rcu_status s"
        using Inr x by (auto simp: put_attempt_def split: option.splits prod.splits)
      show ?thesis
      proof (cases "res1 = retry")
        case False
        with step Inr x y have "s1 = s'" by simp
        with e1 have "rcu_status s' = (rcu_status s)[w := rcu_status s ! w + 0]"
          by simp
        then show ?thesis ..
      next
        case True
        show ?thesis
        proof (cases "rcu_progress w s1")
          case (Inl e)
          with step Inr x True y show ?thesis by simp
        next
          case r: (Inr s2)
          then have w: "w < length (rcu_status s)"
            and e2: "rcu_status s2 = (rcu_status s)[w := Suc (rcu_status s ! w)]"
            using e1 by (auto simp: rcu_progress_def split: if_splits)
          from step Inr x True r have "f env key val w s2 = Some y" by simp
          from IH [OF this] y obtain k where
            "rcu_status s' = (rcu_status s2)[w := rcu_status s2 ! w + k]"
            by blast
          with w e2 have "rcu_status s' = (rcu_status s)[w := rcu_status s ! w + Suc k]"
            by simp
          then show ?thesis ..
        qed
      qed
    qed
  qed
qed

lemma put_epochs:
  assumes "put env s key val w = Some (Inr (b, s'))"
  shows "\<exists>k. rcu_status s' = (rcu_status s)[w := rcu_status s ! w + Suc k]"
proof -
  from assms obtain s1 where s1: "rcu_progress w s = Inr s1"
    by (cases "rcu_progress w s") (simp_all add: put_def)
  then have w: "w < length (rcu_status s)"
    and e1: "rcu_status s1 = (rcu_status s)[w := Suc (rcu_status s ! w)]"
    by (auto simp: rcu_progress_def split: if_splits)
  from assms s1 obtain res where "put_loop env key val w s1 = Some (Inr (res, s'))"
    by (auto simp: put_def split: option.splits sum.splits)
  from put_loop_epochs [OF this] obtain k where
    "rcu_status s' = (rcu_status s1)[w := rcu_status s1 ! w + k]"
    by blast
  with w e1 have "rcu_status s' = (rcu_status s)[w := rcu_status s ! w + Suc k]"
    by simp
  then show ?thesis ..
qed

lemma facade_calls:
  assumes "w < length (rcu_status s)"
  shows "get env s key val w =
           (case root s of
              None \<Rightarrow> Inl NullPointer
            | Some (p, r) \<Rightarrow>
                Inr ((fst (r_get env r key val) = ok, snd (r_get env r key val)),
                     advance_epoch w s))"
    and "scan env s b n result w =
           (case root s of
              None \<Rightarrow> Inl NullPointer
            | Some (p, r) \<Rightarrow> Inr (r_scan env r b n result, advance_epoch w s))"
    and "range_scan env s b e result w =
           (case root s of
              None \<Rightarrow> Inl NullPointer
            | Some (p, r) \<Rightarrow> Inr (r_range_scan env r b e result, advance_epoch w s))"
    and "remove_key env s key w =
           (case root s of
              None \<Rightarrow> Inl NullPointer
            | Some (p, r) \<Rightarrow>
                (case r_remove env r key (allocated_bytes s) of
                   (res, r', a') \<Rightarrow>
                     Inr (res = ok,
                          (advance_epoch w s)\<lparr>root := Some (p, r'), allocated_bytes := a'\<rparr>)))"
  using assms
  by (simp_all add: get_def scan_def range_scan_def remove_key_def rcu_progress_def
      advance_epoch_def split_beta split: option.splits)

lemma but_epochs_calls:
  assumes "w < length (rcu_status s)" and "w' < length (rcu_status s)"
  shows "but_epochs (get env s key val w) = but_epochs (get env s key val w')"
    and "but_epochs (scan env s b n result w) = but_epochs (scan env s b n result w')"
    and "but_epochs (range_scan env s b e result w) =
         but_epochs (range_scan env s b e result w')"
    and "but_epochs (remove_key env s key w) = but_epochs (remove_key env s key w')"
  using assms
  by (simp_all add: get_def scan_def range_scan_def remove_key_def rcu_progress_def
      but_epochs_def split_beta split: option.splits)

text \<open>
  C7. In an index with one epoch counter per configured worker, for workers \<open>w\<close> and
  \<open>w'\<close> of \<open>[0, worker_n)\<close>:
  \<^item> \<open>get\<close>, \<open>scan\<close>, \<open>range_scan\<close> and \<open>remove\<close> by \<open>w\<close> return what the Root
    answers, which does not depend on \<open>w\<close>, and leave the state with the epoch counter of
    \<open>w\<close> advanced by one and, for \<open>remove\<close>, the Root's change; so \<open>w\<close> and \<open>w'\<close> get
    the same result and leave the same state but for the epoch counters;
  \<^item> a \<open>put\<close> that returns has changed, of the epoch counters, that of \<open>w\<close> alone, once
    for each call of \<open>root->put\<close>;
  \<^item> \<open>put\<close> also hands the identifier to \<open>Root::put\<close>, and that is all: \<open>put\<close> by
    \<open>w'\<close> over a Root that is handed \<open>w\<close> whoever calls does what \<open>put\<close> by \<open>w\<close>
    does, but for the epoch counters;
  \<^item> over the Root of the specification, whose \<open>put\<close> tracks nothing but the epoch with
    the identifier, \<open>put\<close> by \<open>w\<close> and by \<open>w'\<close> give the same result and the same
    state but for the epoch counters, also when calls are answered \<open>retry\<close> on the way.
\<close>

theorem worker_id_only_advances_epoch:
  fixes env :: "('k, 'v, 'r) env" and s :: "'r xindex"
    and u :: "('a::linorder, 'b) shared_root_t xindex"
  assumes "length (rcu_status s) = worker_n (config s)"
    and "w < worker_n (config s)" and "w' < worker_n (config s)"
    and "length (rcu_status u) = worker_n (config u)"
    and "w < worker_n (config u)" and "w' < worker_n (config u)"
  shows "get env s key val w =
           (case root s of
              None \<Rightarrow> Inl NullPointer
            | Some (p, r) \<Rightarrow>
                Inr ((fst (r_get env r key val) = ok, snd (r_get env r key val)),
                     advance_epoch w s)) \<and>
         scan env s b n result w =
           (case root s of
              None \<Rightarrow> Inl NullPointer
            | Some (p, r) \<Rightarrow> Inr (r_scan env r b n result, advance_epoch w s)) \<and>
         range_scan env s b e result w =
           (case root s of
              None \<Rightarrow> Inl NullPointer
            | Some (p, r) \<Rightarrow> Inr (r_range_scan env r b e result, advance_epoch w s)) \<and>
         remove_key env s key w =
           (case root s of
              None \<Rightarrow> Inl NullPointer
            | Some (p, r) \<Rightarrow>
                (case r_remove env r key (allocated_bytes s) of
                   (res, r', a') \<Rightarrow>
                     Inr (res = ok,
                          (advance_epoch w s)\<lparr>root := Some (p, r'), allocated_bytes := a'\<rparr>))) \<and>
         but_epochs (get env s key val w) = but_epochs (get env s key val w') \<and>
         but_epochs (scan env s b n result w) = but_epochs (scan env s b n result w') \<and>
         but_epochs (range_scan env s b e result w) =
           but_epochs (range_scan env s b e result w') \<and>
         but_epochs (remove_key env s key w) = but_epochs (remove_key env s key w') \<and>
         (\<forall>x s'. put env s key val w = Some (Inr (x, s')) \<longrightarrow>
            (\<exists>k. rcu_status s' = (rcu_status s)[w := rcu_status s ! w + Suc k])) \<and>
         map_option but_epochs (put env s key val w) =
           map_option but_epochs
             (put (env\<lparr>r_put := \<lambda>r k v x. r_put env r k v w\<rparr>) s key val w') \<and>
         map_option but_epochs
             (put (shared_env ndbg sz_root sz_slot group_size max_size steps) u key' val' w) =
           map_option but_epochs
             (put (shared_env ndbg sz_root sz_slot group_size max_size steps) u key' val' w')"
proof -
  from assms have w: "w < length (rcu_status s)" and w': "w' < length (rcu_status s)"
    and v: "w < length (rcu_status u)" and v': "w' < length (rcu_status u)"
    by simp_all
  have override: "map_option but_epochs (put env s key val w) =
           map_option but_epochs
             (put (env\<lparr>r_put := \<lambda>r k v x. r_put env r k v w\<rparr>) s key val w')"
    by (rule put_same [OF _ w w']) simp
  have spec: "map_option but_epochs
             (put (shared_env ndbg sz_root sz_slot group_size max_size steps) u key' val' w) =
           map_option but_epochs
             (put (shared_env ndbg sz_root sz_slot group_size max_size steps) u key' val' w')"
    by (rule put_same [OF _ v v'])
       (simp add: shared_env_def shared_put_worker [of _ _ _ _ w w'])
  have epochs: "\<forall>x s'. put env s key val w = Some (Inr (x, s')) \<longrightarrow>
            (\<exists>k. rcu_status s' = (rcu_status s)[w := rcu_status s ! w + Suc k])"
    by (intro allI impI) (rule put_epochs)
  from facade_calls [OF w, of env] but_epochs_calls [OF w w', of env] epochs override spec
  show ?thesis
    by (intro conjI)
qed


text \<open>
  In the index with two workers, \<open>get(5)\<close> by worker 0 finds 50 and \<open>scan(3, 2)\<close>
  finds two pairs, each advancing the epoch counter of worker 0 by one, and worker 1
  gets the same but for the epoch counters. In the index whose worker is held up for one
  step, \<open>put(4, 40)\<close> by worker 0 returns \<open>true\<close> after two calls answered \<open>retry\<close>,
  and so it does for worker 1, with the same state but for the epoch counters.
\<close>

theorem worker_id_only_advances_epoch_witness:
  "get split_env split_index 5 0 0 =
     Inr ((True, 50), split_index\<lparr>rcu_status := [1, 0]\<rparr>) \<and>
   but_epochs (get split_env split_index 5 0 1) =
     Inr ((True, 50), split_index\<lparr>rcu_status := []\<rparr>) \<and>
   scan split_env split_index 3 2 [] 0 =
     Inr ((2, [(3, 30), (5, 50)]), split_index\<lparr>rcu_status := [1, 0]\<rparr>) \<and>
   but_epochs (scan split_env split_index 3 2 [] 1) =
     Inr ((2, [(3, 30), (5, 50)]), split_index\<lparr>rcu_status := []\<rparr>) \<and>
   put (busy_env 1) (busy_index 1) 4 40 0 = Some (Inr (True, busy_index_put [3, 0])) \<and>
   map_option but_epochs (put (busy_env 1) (busy_index 1) 4 40 1) =
     Some (Inr (True, busy_index_put []))"
proof -
  have l: "length (rcu_status split_index) = worker_n (config split_index)"
    "0 < worker_n (config split_index)" "1 < worker_n (config split_index)"
    by (simp_all add: split_index_def)
  have m: "length (rcu_status (busy_index 1)) = worker_n (config (busy_index 1))"
    "0 < worker_n (config (busy_index 1))" "1 < worker_n (config (busy_index 1))"
    by (simp_all add: busy_index_def)
  note th = worker_id_only_advances_epoch [OF l m, where env = split_env and key = 5
      and val = 0 and b = 3 and n = 2 and result = "[]" and ndbg = False and sz_root = 64
      and sz_slot = 16 and group_size = 0 and max_size = 8 and steps = "busy_steps 1"
      and key' = 4 and val' = 40]
  from th have g: "get split_env split_index 5 0 0 =
           (case root split_index of
              None \<Rightarrow> Inl NullPointer
            | Some (p, r) \<Rightarrow>
                Inr ((fst (r_get split_env r 5 0) = ok, snd (r_get split_env r 5 0)),
                     advance_epoch 0 split_index))"
    and sc: "scan split_env split_index 3 2 [] 0 =
           (case root split_index of
              None \<Rightarrow> Inl NullPointer
            | Some (p, r) \<Rightarrow> Inr (r_scan split_env r 3 2 [], advance_epoch 0 split_index))"
    and g': "but_epochs (get split_env split_index 5 0 0) =
             but_epochs (get split_env split_index 5 0 1)"
    and sc': "but_epochs (scan split_env split_index 3 2 [] 0) =
             but_epochs (scan split_env split_index 3 2 [] 1)"
    and p': "map_option but_epochs (put (busy_env 1) (busy_index 1) 4 40 0) =
             map_option but_epochs (put (busy_env 1) (busy_index 1) 4 40 1)"
    unfolding busy_env_def by blast+
  have g0: "get split_env split_index 5 0 0 =
      Inr ((True, 50), split_index\<lparr>rcu_status := [1, 0]\<rparr>)"
    unfolding g
    by (simp add: advance_epoch_def split_index_def split_env_def spec_env_def
        split_root_def root_get_def group_get_def group_lookup_def mk_group_def)
  have s0: "scan split_env split_index 3 2 [] 0 =
      Inr ((2, [(3, 30), (5, 50)]), split_index\<lparr>rcu_status := [1, 0]\<rparr>)"
    unfolding sc
    by (simp add: advance_epoch_def split_index_def split_env_def spec_env_def
        split_root_def root_scan_def entries_from_def group_entries_def mk_group_def
        List.map_filter_simps)
  have p0: "put (busy_env 1) (busy_index 1) 4 40 0 = Some (Inr (True, busy_index_put [3, 0]))"
  proof -
    have "(1::nat) + 2 = 3" by simp
    with busy_put_returns [of 1] show ?thesis by (simp only:)
  qed
  have g1: "but_epochs (get split_env split_index 5 0 1) =
      Inr ((True, 50), split_index\<lparr>rcu_status := []\<rparr>)"
    unfolding g' [symmetric] g0 by (simp add: but_epochs_def)
  have s1: "but_epochs (scan split_env split_index 3 2 [] 1) =
      Inr ((2, [(3, 30), (5, 50)]), split_index\<lparr>rcu_status := []\<rparr>)"
    unfolding sc' [symmetric] s0 by (simp add: but_epochs_def)
  have p1: "map_option but_epochs (put (busy_env 1) (busy_index 1) 4 40 1) =
      Some (Inr (True, busy_index_put []))"
    unfolding p' [symmetric] p0 by (simp add: but_epochs_def busy_index_put_def)
  from g0 g1 s0 s1 p0 p1 show ?thesis
    by (intro conjI)
qed


subsection \<open>Structure adjustment\<close>

text \<open>
  C9. With no Root (\<open>root == nullptr\<close>) \<open>force_adjustment_sync\<close> returns at once: the
  whole state, the allocated-bytes counter and the events included, is as before.
\<close>

theorem force_adjustment_sync_nullptr:
  "root s = None \<Longrightarrow> force_adjustment_sync env s = Inr s"
  by (simp add: force_adjustment_sync_def)

theorem force_adjustment_sync_nullptr_witness:
  "root (fresh demo_config 4096 :: (int, int) root_t xindex) = None \<and>
   force_adjustment_sync demo_env (fresh demo_config 4096) = Inr (fresh demo_config 4096)"
  using force_adjustment_sync_nullptr [of "fresh demo_config 4096" demo_env]
  by (simp add: fresh_def)

lemma collect_fst: "fst (collect b info) = (b \<or> (\<exists>i \<in> set info. should_update_array i))"
  by (induction info arbitrary: b) (simp_all add: Let_def split_beta disj_ac)

lemma collect_False:
  "collect False info = (\<exists>i \<in> set info. should_update_array i, snd (collect False info))"
  using collect_fst [of False info] by (cases "collect False info") simp

lemma create_new_root_step_eq:
  assumes "r_create_new_root env r (allocated_bytes s) = (r2, a2)"
  shows "create_new_root_step env (p, r) s =
     s\<lparr>root := Some (next_addr s, r2), allocated_bytes := a2, next_addr := Suc (next_addr s),
        events := events s @ [CreateNewRoot p (next_addr s), StoreRoot (next_addr s)]\<rparr>"
  using assms
  by (simp add: create_new_root_step_def emit_def Let_def)

lemma trim_root_step_eq:
  assumes "root s = Some (q, r2)" and "r_trim_root env r2 (allocated_bytes s) = (r3, a3)"
  shows "trim_root_step env s =
     Inr (s\<lparr>root := Some (q, r3), allocated_bytes := a3, events := events s @ [TrimRoot q]\<rparr>)"
  using assms
  by (simp add: trim_root_step_def emit_def)

lemma background_update_eq:
  assumes "root s = Some (p, r1)"
    and "r_create_new_root env r1 (allocated_bytes s) = (r2, a2)"
    and "r_trim_root env r2 a2 = (r3, a3)"
  shows "background_update env s =
     (if assert_fails env (sizeof_root_t env < a3)
      then Inl (AssertionFailed ''_::allocated_bytes > bytes_to_delete'')
      else Inr (swapped env s r1 r3 a3
                  [CreateNewRoot p (next_addr s), StoreRoot (next_addr s), MemoryFence,
                   RcuBarrier, TrimRoot (next_addr s), DeleteRoot p]))"
proof -
  let ?q = "next_addr s"
  let ?s3 = "s\<lparr>root := Some (?q, r2), allocated_bytes := a2, next_addr := Suc ?q,
        events := events s @ [CreateNewRoot p ?q, StoreRoot ?q, MemoryFence, RcuBarrier]\<rparr>"
  have 1: "rcu_barrier (memory_fence (create_new_root_step env (p, r1) s)) = ?s3"
    by (simp add: create_new_root_step_eq [OF assms(2)] memory_fence_def rcu_barrier_def emit_def)
  have 2: "trim_root_step env ?s3 =
      Inr (?s3\<lparr>root := Some (?q, r3), allocated_bytes := a3,
              events := events ?s3 @ [TrimRoot ?q]\<rparr>)"
    using assms(3) by (intro trim_root_step_eq) simp_all
  show ?thesis
    by (simp add: background_update_def assms(1) Let_def 1 2 delete_root_eq swapped_def)
qed

lemma background_round_eq:
  assumes "root s = Some (p, r)"
    and "run_workers env (map (\<lambda>i. i\<lparr>started := True\<rparr>) info) r (allocated_bytes s) =
           (info2, r1, a1)"
    and "\<exists>i \<in> set info2. should_update_array i"
    and "r_create_new_root env r1 a1 = (r2, a2)"
    and "r_trim_root env r2 a2 = (r3, a3)"
  shows "background_round env s info =
     (if assert_fails env (sizeof_root_t env < a3)
      then Inl (AssertionFailed ''_::allocated_bytes > bytes_to_delete'')
      else Inr (swapped env s r1 r3 a3
                  [CreateNewRoot p (next_addr s), StoreRoot (next_addr s), MemoryFence,
                   RcuBarrier, TrimRoot (next_addr s), DeleteRoot p, MemoryFence, RcuBarrier],
                snd (collect False info2)))"
proof -
  let ?s1 = "s\<lparr>root := Some (p, r1), allocated_bytes := a1\<rparr>"
  obtain info3 where c: "collect False info2 = (True, info3)"
    using collect_False [of info2] assms(3) by simp
  have i: "snd (collect False info2) = info3"
    using c by simp
  have u: "background_update env ?s1 =
     (if assert_fails env (sizeof_root_t env < a3)
      then Inl (AssertionFailed ''_::allocated_bytes > bytes_to_delete'')
      else Inr (swapped env ?s1 r1 r3 a3
                  [CreateNewRoot p (next_addr ?s1), StoreRoot (next_addr ?s1), MemoryFence,
                   RcuBarrier, TrimRoot (next_addr ?s1), DeleteRoot p]))"
    using assms(4,5) by (intro background_update_eq) simp_all
  have r: "background_round env s info =
     (case background_update env ?s1 of
        Inl e \<Rightarrow> Inl e
      | Inr s2 \<Rightarrow> Inr (rcu_barrier (memory_fence s2), info3))"
    unfolding background_round_def
    by (simp only: assms(1) assms(2) c option.case prod.case Let_def if_True)
  show ?thesis
    unfolding r u i
    by (simp add: swapped_def memory_fence_def rcu_barrier_def emit_def)
qed

lemma background_round_quiet_eq:
  assumes "root s = Some (p, r)"
    and "run_workers env (map (\<lambda>i. i\<lparr>started := True\<rparr>) info) r (allocated_bytes s) =
           (info2, r1, a1)"
    and "\<not> (\<exists>i \<in> set info2. should_update_array i)"
  shows "background_round env s info =
     Inr (s\<lparr>root := Some (p, r1), allocated_bytes := a1,
            events := events s @ [MemoryFence, RcuBarrier]\<rparr>, snd (collect False info2))"
proof -
  obtain info3 where c: "collect False info2 = (False, info3)"
    using collect_False [of info2] assms(3) by simp
  have i: "snd (collect False info2) = info3"
    using c by simp
  show ?thesis
    unfolding background_round_def i
    by (simp add: assms(1) assms(2) c memory_fence_def rcu_barrier_def emit_def)
qed

lemma force_adjustment_sync_eq:
  assumes "root s = Some (p, r)"
    and "r_force_adjustment_sync env r False (allocated_bytes s) = (True, r1, a1)"
    and "r_create_new_root env r1 a1 = (r2, a2)"
    and "r_trim_root env r2 a2 = (r3, a3)"
  shows "force_adjustment_sync env s =
     (if assert_fails env (sizeof_root_t env < a3)
      then Inl (AssertionFailed ''_::allocated_bytes > bytes_to_delete'')
      else Inr (swapped env s r1 r3 a3
                  [CreateNewRoot p (next_addr s), StoreRoot (next_addr s),
                   TrimRoot (next_addr s), DeleteRoot p]))"
proof -
  let ?q = "next_addr s"
  let ?s1 = "s\<lparr>root := Some (p, r1), allocated_bytes := a1\<rparr>"
  let ?s2 = "s\<lparr>root := Some (?q, r2), allocated_bytes := a2, next_addr := Suc ?q,
        events := events s @ [CreateNewRoot p ?q, StoreRoot ?q]\<rparr>"
  have 1: "create_new_root_step env (p, r1) ?s1 = ?s2"
    using assms(3) by (subst create_new_root_step_eq [where ?r2.0 = r2 and ?a2.0 = a2]) simp_all
  have 2: "trim_root_step env ?s2 =
      Inr (?s2\<lparr>root := Some (?q, r3), allocated_bytes := a3,
              events := events ?s2 @ [TrimRoot ?q]\<rparr>)"
    using assms(4) by (intro trim_root_step_eq) simp_all
  have f: "force_adjustment_sync env s =
     (case trim_root_step env (create_new_root_step env (p, r1) ?s1) of
        Inl e \<Rightarrow> Inl e
      | Inr s3 \<Rightarrow> delete_root env (p, r1) s3)"
    unfolding force_adjustment_sync_def
    by (simp only: assms(1) assms(2) option.case prod.case Let_def if_True)
  show ?thesis
    unfolding f 1 2
    by (simp add: delete_root_eq swapped_def)
qed

lemma force_adjustment_sync_quiet_eq:
  assumes "root s = Some (p, r)"
    and "r_force_adjustment_sync env r False (allocated_bytes s) = (False, r1, a1)"
  shows "force_adjustment_sync env s = Inr (s\<lparr>root := Some (p, r1), allocated_bytes := a1\<rparr>)"
  unfolding force_adjustment_sync_def
  by (simp add: assms)

lemma split_workers:
  "run_workers split_env (map (\<lambda>i. i\<lparr>started := True\<rparr>) (init_info 2)) split_root 96 =
     (worked_info, adjusted_root, 96)"
  by (simp add: init_info_def numeral_2_eq_2 upt_rec split_env_def spec_env_def
      root_do_adjustment_def split_root_def mk_group_def group_adjust_def group_entries_def
      List.map_filter_simps worked_info_def adjusted_root_def Let_def)

lemma split_sync:
  "r_force_adjustment_sync split_env split_root False 96 = (True, adjusted_root, 96)"
  by (simp add: split_env_def spec_env_def root_force_adjustment_sync_def all_groups_def
      split_root_def mk_group_def group_adjust_def group_entries_def
      List.map_filter_simps adjusted_root_def Let_def)

lemma split_create:
  "r_create_new_root split_env adjusted_root 96 = (rebuilt_root, 208)"
  by (simp add: split_env_def spec_env_def root_create_new_root_def all_groups_def
      split_group_def tail_of_def table_bytes_def
      split_root_def mk_group_def List.map_filter_simps adjusted_root_def rebuilt_root_def Let_def)

lemma split_trim: "r_trim_root split_env rebuilt_root 208 = (rebuilt_root, 208)"
  by (simp add: split_env_def spec_env_def root_trim_root_def)

lemma split_dtor: "r_dtor split_env adjusted_root 144 = 112"
  by (simp add: split_env_def spec_env_def table_bytes_def adjusted_root_def split_root_def)

lemma split_facts:
  "root split_index = Some (0, split_root)" "allocated_bytes split_index = 96"
  "next_addr split_index = 1" "events split_index = [NewRoot 0]"
  "sizeof_root_t split_env = 64" "NDEBUG split_env = False"
  by (simp_all add: split_index_def split_env_def spec_env_def)

lemma collect_worked: "collect False worked_info = (True, init_info 2)"
  by (simp add: worked_info_def init_info_def numeral_2_eq_2 upt_rec)

lemma split_workers_index:
  "run_workers split_env (map (\<lambda>i. i\<lparr>started := True\<rparr>) (init_info 2)) split_root
     (allocated_bytes split_index) = (worked_info, adjusted_root, 96)"
  by (simp add: split_facts split_workers)

text \<open>
  C2. In a round in which a worker reports a Group that needs a structural change, the
  coordinator calls \<open>create_new_root\<close> on the old Root, stores the new pointer, issues
  the memory fence, waits for the barrier, trims the new Root, and after all of that
  deletes the old Root; the round ends with a second fence and barrier. The only other
  outcome is the failed assertion in front of the delete, which ends the process with
  the old Root not freed. In no case is the old Root freed before the barrier.
\<close>

theorem background_round_order:
  assumes "root s = Some (p, r)"
    and "run_workers env (map (\<lambda>i. i\<lparr>started := True\<rparr>) info) r (allocated_bytes s) =
           (info2, r1, a1)"
    and "\<exists>i \<in> set info2. should_update_array i"
    and "r_create_new_root env r1 a1 = (r2, a2)"
    and "r_trim_root env r2 a2 = (r3, a3)"
  shows "background_round env s info =
     (if assert_fails env (sizeof_root_t env < a3)
      then Inl (AssertionFailed ''_::allocated_bytes > bytes_to_delete'')
      else Inr (s\<lparr>root := Some (next_addr s, r3),
                  allocated_bytes := r_dtor env r1 (a3 - sizeof_root_t env),
                  next_addr := Suc (next_addr s),
                  events := events s @
                    [CreateNewRoot p (next_addr s), StoreRoot (next_addr s), MemoryFence,
                     RcuBarrier, TrimRoot (next_addr s), DeleteRoot p, MemoryFence, RcuBarrier]\<rparr>,
                snd (collect False info2)))"
  using background_round_eq [OF assms] by (simp add: swapped_def)

text \<open>
  The index with Groups \<open>[1, 3, 5]\<close> and \<open>[7, 9]\<close> and a threshold of two entries:
  worker 0 reports the first Group, and the round replaces the Root at address 0 by the
  one at address 1.
\<close>

theorem background_round_order_witness:
  "run_workers split_env (map (\<lambda>i. i\<lparr>started := True\<rparr>) (init_info 2)) split_root
     (allocated_bytes split_index) = (worked_info, adjusted_root, 96) \<and>
   (\<exists>i \<in> set worked_info. should_update_array i) \<and>
   background_round split_env split_index (init_info 2) =
     Inr (rebuilt_index
            [CreateNewRoot 0 1, StoreRoot 1, MemoryFence, RcuBarrier, TrimRoot 1, DeleteRoot 0,
             MemoryFence, RcuBarrier],
          init_info 2)"
proof -
  have f: "\<exists>i \<in> set worked_info. should_update_array i"
    by (simp add: worked_info_def)
  have "background_round split_env split_index (init_info 2) =
     Inr (rebuilt_index
            [CreateNewRoot 0 1, StoreRoot 1, MemoryFence, RcuBarrier, TrimRoot 1, DeleteRoot 0,
             MemoryFence, RcuBarrier],
          init_info 2)"
    using background_round_order [OF split_facts(1) split_workers_index f split_create split_trim]
    by (simp add: assert_fails_def split_facts split_dtor collect_worked rebuilt_index_def)
  with split_workers_index f show ?thesis by simp
qed

text \<open>
  C3, as stated, fails. On the same index the synchronous path creates, stores, trims
  and deletes, with no memory fence and no barrier, where the background round has
  both before the trim and again at its end.
\<close>

theorem sync_differs_from_round:
  "map_sum id events (force_adjustment_sync split_env split_index) =
     Inr [NewRoot 0, CreateNewRoot 0 1, StoreRoot 1, TrimRoot 1, DeleteRoot 0] \<and>
   map_sum id (events \<circ> fst) (background_round split_env split_index (init_info 2)) =
     Inr [NewRoot 0, CreateNewRoot 0 1, StoreRoot 1, MemoryFence, RcuBarrier, TrimRoot 1,
          DeleteRoot 0, MemoryFence, RcuBarrier]"
proof -
  have f: "\<exists>i \<in> set worked_info. should_update_array i"
    by (simp add: worked_info_def)
  have y: "r_force_adjustment_sync split_env split_root False (allocated_bytes split_index) =
             (True, adjusted_root, 96)"
    by (simp add: split_facts split_sync)
  have "map_sum id events (force_adjustment_sync split_env split_index) =
     Inr [NewRoot 0, CreateNewRoot 0 1, StoreRoot 1, TrimRoot 1, DeleteRoot 0]"
    by (simp add: force_adjustment_sync_eq [OF split_facts(1) y split_create split_trim]
        assert_fails_def split_facts swapped_def)
  moreover have
    "map_sum id (events \<circ> fst) (background_round split_env split_index (init_info 2)) =
     Inr [NewRoot 0, CreateNewRoot 0 1, StoreRoot 1, MemoryFence, RcuBarrier, TrimRoot 1,
          DeleteRoot 0, MemoryFence, RcuBarrier]"
    by (simp add: background_round_eq [OF split_facts(1) split_workers_index f split_create
          split_trim] assert_fails_def split_facts swapped_def)
  ultimately show ?thesis by simp
qed

text \<open>
  C3, amended. When the workers of a round and the synchronous evaluation come to the
  same Groups and the same verdict, \<open>force_adjustment_sync\<close> and the round end alike:
  both fail on the same assertion, or both succeed with states that agree in
  everything but the events, and the events of the synchronous path are those of the
  round with the memory fences and barriers taken out.
\<close>

theorem sync_matches_round_without_barriers:
  assumes "root s = Some (p, r)"
    and "run_workers env (map (\<lambda>i. i\<lparr>started := True\<rparr>) info) r (allocated_bytes s) =
           (info2, r1, a1)"
    and "r_force_adjustment_sync env r False (allocated_bytes s) =
           (\<exists>i \<in> set info2. should_update_array i, r1, a1)"
  shows "rel_sum (=)
           (\<lambda>s1 (s2, info3). s2\<lparr>events := events s1\<rparr> = s1 \<and>
              (\<exists>es. events s2 = events s @ es \<and>
                    events s1 = events s @ filter (\<lambda>e. e \<noteq> MemoryFence \<and> e \<noteq> RcuBarrier) es))
           (force_adjustment_sync env s) (background_round env s info)"
proof (cases "\<exists>i \<in> set info2. should_update_array i")
  case True
  obtain r2 a2 where n: "r_create_new_root env r1 a1 = (r2, a2)"
    by (cases "r_create_new_root env r1 a1")
  obtain r3 a3 where t: "r_trim_root env r2 a2 = (r3, a3)"
    by (cases "r_trim_root env r2 a2")
  from assms(3) True
  have y: "r_force_adjustment_sync env r False (allocated_bytes s) = (True, r1, a1)"
    by simp
  show ?thesis
    unfolding force_adjustment_sync_eq [OF assms(1) y n t]
      background_round_eq [OF assms(1) assms(2) True n t]
    by (simp add: swapped_def)
next
  case False
  from assms(3) False
  have y: "r_force_adjustment_sync env r False (allocated_bytes s) = (False, r1, a1)"
    by simp
  show ?thesis
    unfolding force_adjustment_sync_quiet_eq [OF assms(1) y]
      background_round_quiet_eq [OF assms(1) assms(2) False]
    by simp
qed

theorem sync_matches_round_without_barriers_witness:
  "r_force_adjustment_sync split_env split_root False (allocated_bytes split_index) =
     (\<exists>i \<in> set worked_info. should_update_array i, adjusted_root, 96) \<and>
   rel_sum (=)
     (\<lambda>s1 (s2, info3). s2\<lparr>events := events s1\<rparr> = s1 \<and>
        (\<exists>es. events s2 = events split_index @ es \<and>
              events s1 =
                events split_index @ filter (\<lambda>e. e \<noteq> MemoryFence \<and> e \<noteq> RcuBarrier) es))
     (force_adjustment_sync split_env split_index)
     (background_round split_env split_index (init_info 2))"
proof -
  have y: "r_force_adjustment_sync split_env split_root False (allocated_bytes split_index) =
             (\<exists>i \<in> set worked_info. should_update_array i, adjusted_root, 96)"
    by (simp add: split_facts split_sync worked_info_def)
  from sync_matches_round_without_barriers [OF split_facts(1) split_workers_index y] y
  show ?thesis by blast
qed

end
